theory Spec2Isabelle
  imports Main "HOL-Library.Word"
begin

unbundle bit_operations_syntax

section \<open>Message framing over a byte stream\<close>

text \<open>
  The repository holds two framing libraries, both called \<^verbatim>\<open>package framed\<close>.
  The sectioned one (a frame is a header section and a body section, each with a 16-bit
  length prefix) has the types \<^verbatim>\<open>Framed\<close>, \<^verbatim>\<open>Frame\<close> and \<^verbatim>\<open>FrameSection\<close>.
  The single-section one (\<^verbatim>\<open>framed.go\<close>) has \<^verbatim>\<open>Reader\<close> and \<^verbatim>\<open>Writer\<close>.

  Go values are embedded as follows. A byte is an \<open>8 word\<close>, an \<^verbatim>\<open>int16\<close> or
  \<^verbatim>\<open>uint16\<close> a \<open>16 word\<close> (read with \<open>sint\<close> or \<open>unat\<close>), an \<^verbatim>\<open>int\<close> that only
  holds lengths and counters an \<open>int\<close>. A call returns its results together with the
  state it leaves behind. A loop of the standard library that need not end is a function
  into \<open>option\<close>, \<open>None\<close> meaning that the call never returns.
\<close>

type_synonym byte = "8 word"
type_synonym int16 = "16 word"
type_synonym uint16 = "16 word"

subsection \<open>Errors\<close>

text \<open>
  \<open>EOF\<close>, \<open>ErrUnexpectedEOF\<close> and \<open>ErrShortWrite\<close> are the values of package \<^verbatim>\<open>io\<close>.
  \<open>AlreadyReadError\<close> carries its message. \<open>ConnError\<close> is any failure of the underlying
  connection other than the end of the stream, and \<open>WriteError\<close> the failure of a write.
  The three \<^verbatim>\<open>fmt.Errorf\<close> values of \<^verbatim>\<open>framed.go\<close> carry the two numbers they
  format. \<open>PanicSliceBounds\<close> is the run-time panic of a slice expression with a
  negative bound; no function of the repository recovers from it, so it is handed
  upwards like an error that no caller handles.
\<close>

datatype error =
    EOF
  | ErrUnexpectedEOF
  | ErrShortWrite
  | AlreadyReadError string
  | ConnError nat
  | WriteError
  | TooLong int int
  | BufferTooSmallFor int int
  | WrittenMismatch int int
  | PanicSliceBounds

subsection \<open>The underlying stream\<close>

text \<open>
  The read side of a connection: the bytes the peer has sent and that no \<^verbatim>\<open>Read\<close>
  has delivered yet, the error every \<^verbatim>\<open>Read\<close> returns once they are used up
  (\<open>EOF\<close> for a closed stream), and a bound on what one call delivers: a \<^verbatim>\<open>Read\<close>
  hands over at most \<open>Suc (short s)\<close> bytes, so callers see short reads. An
  \<^verbatim>\<open>io.Reader\<close> may report its error with the call that delivers its last bytes or
  with the call after it: \<open>eager s\<close> says that this stream does the former.
\<close>

record Source =
  pending :: "byte list"
  at_end :: error
  short :: nat
  eager :: bool

text \<open>
  The write side: the bytes accepted so far, and how many more the stream takes before
  its writes fail (\<open>None\<close>: it never fails).
\<close>

record Sink =
  sent :: "byte list"
  room :: "nat option"

text \<open>\<^verbatim>\<open>Read(p)\<close> with \<open>lp = len(p)\<close>: the bytes stored into \<open>p\<close> (their number is
  the \<^verbatim>\<open>n\<close> of the call) and the error.\<close>

definition Source_Read :: "nat \<Rightarrow> Source \<Rightarrow> (byte list \<times> error option) \<times> Source" where
  "Source_Read lp s =
     (if pending s = [] then (([], Some (at_end s)), s)
      else ((take (min lp (Suc (short s))) (pending s),
             if eager s \<and> drop (min lp (Suc (short s))) (pending s) = []
             then Some (at_end s) else None),
            s\<lparr>pending := drop (min lp (Suc (short s))) (pending s)\<rparr>))"

text \<open>\<^verbatim>\<open>Write(p)\<close>: the number of bytes accepted and the error.\<close>

definition Sink_Write :: "byte list \<Rightarrow> Sink \<Rightarrow> (nat \<times> error option) \<times> Sink" where
  "Sink_Write p k =
     (case room k of
        None \<Rightarrow> ((length p, None), k\<lparr>sent := sent k @ p\<rparr>)
      | Some r \<Rightarrow>
          if length p \<le> r
          then ((length p, None), k\<lparr>sent := sent k @ p, room := Some (r - length p)\<rparr>)
          else ((r, Some WriteError), k\<lparr>sent := sent k @ take r p, room := Some 0\<rparr>))"

subsection \<open>Standard library: \<^verbatim>\<open>io.ReadFull\<close> and \<^verbatim>\<open>encoding/binary\<close>\<close>

text \<open>
  \<^verbatim>\<open>io.ReadAtLeast(r, buf, min)\<close> with \<open>min = len(buf)\<close>:
  \<^verbatim>\<open>for n < min && err == nil { nn, err = r.Read(buf[n:]); n += nn }\<close>.
  \<open>got\<close> is \<open>buf[:n]\<close>.
\<close>

function ReadFull_loop :: "nat \<Rightarrow> byte list \<Rightarrow> Source \<Rightarrow> (byte list \<times> error option) \<times> Source" where
  "ReadFull_loop mn got s =
     (if length got < mn then
        (case Source_Read (mn - length got) s of
           ((bs, None), s') \<Rightarrow> ReadFull_loop mn (got @ bs) s'
         | ((bs, Some e), s') \<Rightarrow> ((got @ bs, Some e), s'))
      else ((got, None), s))"
  by pat_completeness auto
termination
  apply (relation "measure (\<lambda>(mn, got, s). mn - length got)")
   apply simp
  subgoal for mn got s
    by (cases "pending s") (auto simp: Source_Read_def split: if_splits)
  done

text \<open>
  \<^verbatim>\<open>io.ReadFull(r, buf)\<close>: after the loop,
  \<^verbatim>\<open>if n >= min { err = nil } else if n > 0 && err == EOF { err = ErrUnexpectedEOF }\<close>.
\<close>

definition ReadFull :: "nat \<Rightarrow> Source \<Rightarrow> (byte list \<times> error option) \<times> Source" where
  "ReadFull mn s =
     (case ReadFull_loop mn [] s of
        ((got, err), s') \<Rightarrow>
          if mn \<le> length got then ((got, None), s')
          else if 0 < length got \<and> err = Some EOF then ((got, Some ErrUnexpectedEOF), s')
          else ((got, err), s'))"

text \<open>Little-endian 16-bit values: \<^verbatim>\<open>b[0] = byte(v); b[1] = byte(v >> 8)\<close> and
  \<^verbatim>\<open>uint16(b[0]) | uint16(b[1])<<8\<close>.\<close>

definition PutUint16 :: "16 word \<Rightarrow> byte list" where
  "PutUint16 v = [ucast v, ucast (drop_bit 8 v)]"

fun Uint16 :: "byte list \<Rightarrow> 16 word" where
  "Uint16 (b0 # b1 # _) = ucast b0 OR push_bit 8 (ucast b1)"
| "Uint16 _ = 0"

text \<open>
  \<^verbatim>\<open>binary.Read(r, endianness, &v)\<close> for a 16-bit \<open>v\<close>: two bytes by \<^verbatim>\<open>io.ReadFull\<close>;
  on an error \<open>v\<close> keeps its value. The second equation of \<open>Uint16\<close> is never used:
  it is only called on the two bytes a successful \<^verbatim>\<open>ReadFull\<close> has filled.
\<close>

definition binary_Read :: "Source \<Rightarrow> (error + 16 word) \<times> Source" where
  "binary_Read s =
     (case ReadFull 2 s of
        ((bs, Some e), s') \<Rightarrow> (Inl e, s')
      | ((bs, None), s') \<Rightarrow> (Inr (Uint16 bs), s'))"

text \<open>\<^verbatim>\<open>binary.Write(w, endianness, v)\<close> for a 16-bit \<open>v\<close>: one \<^verbatim>\<open>Write\<close> of two
  bytes, whose error is returned.\<close>

definition binary_Write :: "16 word \<Rightarrow> Sink \<Rightarrow> error option \<times> Sink" where
  "binary_Write v k = (case Sink_Write (PutUint16 v) k of ((n, err), k') \<Rightarrow> (err, k'))"

subsection \<open>Standard library: \<^verbatim>\<open>io.Copy\<close> into \<^verbatim>\<open>ioutil.Discard\<close>, and \<^verbatim>\<open>io.CopyN\<close>\<close>

text \<open>
  \<^verbatim>\<open>io.Copy(ioutil.Discard, r)\<close> reads \<open>r\<close> into a scratch buffer until a \<^verbatim>\<open>Read\<close>
  returns an error, and returns that error, or nil when it is \<open>EOF\<close>. The reader is the
  function \<open>rd\<close> from a buffer length and a state. A reader that keeps returning no bytes
  and no error keeps the loop running for ever: the result is \<open>None\<close>.
\<close>

definition blackHole_len :: nat where
  "blackHole_len = 8192"

partial_function (option) io_Copy_Discard ::
  "(nat \<Rightarrow> 'w \<Rightarrow> ((byte list \<times> error option) \<times> 'w) option) \<Rightarrow> 'w \<Rightarrow> (error option \<times> 'w) option" where
  "io_Copy_Discard rd w =
     Option.bind (rd blackHole_len w)
       (\<lambda>((bs, err), w').
          case err of
            None \<Rightarrow> io_Copy_Discard rd w'
          | Some e \<Rightarrow> Some (if e = EOF then None else Some e, w'))"

declare io_Copy_Discard.simps [code]

text \<open>
  \<^verbatim>\<open>io.Copy(dst, io.LimitReader(src, N))\<close>, the loop of \<^verbatim>\<open>io.CopyN\<close>. The limited
  reader returns \<open>EOF\<close> when \<open>N \<le> 0\<close>, which ends the copy without an error; otherwise it
  reads at most \<open>N\<close> bytes (and at most the 32768 of the copy buffer) and counts them
  off \<open>N\<close>. \<open>wr\<close> is the number of bytes written so far.
\<close>

function io_Copy_limited ::
  "int \<Rightarrow> nat \<Rightarrow> Source \<Rightarrow> Sink \<Rightarrow> (nat \<times> error option) \<times> Source \<times> Sink" where
  "io_Copy_limited N wr src dst =
     (if N \<le> 0 then ((wr, None), src, dst)
      else
        (case Source_Read (min 32768 (nat N)) src of
           ((bs, er), src') \<Rightarrow>
             if 0 < length bs then
               (case Sink_Write bs dst of
                  ((nw, Some ew), dst') \<Rightarrow> ((wr + nw, Some ew), src', dst')
                | ((nw, None), dst') \<Rightarrow>
                    if length bs \<noteq> nw then ((wr + nw, Some ErrShortWrite), src', dst')
                    else
                      (case er of
                         Some e \<Rightarrow> ((wr + nw, if e = EOF then None else Some e), src', dst')
                       | None \<Rightarrow> io_Copy_limited (N - int (length bs)) (wr + nw) src' dst'))
             else
               (case er of
                  Some e \<Rightarrow> ((wr, if e = EOF then None else Some e), src', dst)
                | None \<Rightarrow> io_Copy_limited N wr src' dst)))"
  by pat_completeness auto
termination
  apply (relation "measure (\<lambda>(N, wr, src, dst). nat N)")
    apply simp
  subgoal for N wr src dst
    by (cases "pending src") (auto simp: Source_Read_def split: if_splits)
  subgoal for N wr src dst
    by (cases "pending src") (auto simp: Source_Read_def split: if_splits)
  done

text \<open>
  \<^verbatim>\<open>io.CopyN(dst, src, n)\<close>: \<^verbatim>\<open>if written == n { return n, nil }\<close>,
  \<^verbatim>\<open>if written < n && err == nil { err = EOF }\<close>.
\<close>

definition io_CopyN :: "int \<Rightarrow> Source \<Rightarrow> Sink \<Rightarrow> (nat \<times> error option) \<times> Source \<times> Sink" where
  "io_CopyN n src dst =
     (case io_Copy_limited n 0 src dst of
        ((wr, err), src', dst') \<Rightarrow>
          if int wr = n then ((wr, None), src', dst')
          else if int wr < n \<and> err = None then ((wr, Some EOF), src', dst')
          else ((wr, err), src', dst'))"

text \<open>
  \<^verbatim>\<open>ioutil.ReadAll(r)\<close> reads \<open>r\<close> until a \<^verbatim>\<open>Read\<close> returns an error and returns
  the bytes read, with that error, or nil when it is \<open>EOF\<close>. \<open>bl\<close> is the room it
  offers to each \<^verbatim>\<open>Read\<close> (at least \<^verbatim>\<open>bytes.MinRead\<close>). On a reader that keeps
  returning no bytes and no error it never returns.
\<close>

partial_function (option) ReadAll_loop ::
  "(nat \<Rightarrow> 'w \<Rightarrow> ((byte list \<times> error option) \<times> 'w) option) \<Rightarrow> nat \<Rightarrow> byte list \<Rightarrow> 'w \<Rightarrow>
   ((byte list \<times> error option) \<times> 'w) option" where
  "ReadAll_loop rd bl acc w =
     Option.bind (rd bl w)
       (\<lambda>((bs, err), w').
          case err of
            None \<Rightarrow> ReadAll_loop rd bl (acc @ bs) w'
          | Some e \<Rightarrow> Some ((acc @ bs, if e = EOF then None else Some e), w'))"

declare ReadAll_loop.simps [code]

definition ReadAll ::
  "(nat \<Rightarrow> 'w \<Rightarrow> ((byte list \<times> error option) \<times> 'w) option) \<Rightarrow> nat \<Rightarrow> 'w \<Rightarrow>
   ((byte list \<times> error option) \<times> 'w) option" where
  "ReadAll rd bl w = ReadAll_loop rd bl [] w"

section \<open>Sectioned framing: \<^verbatim>\<open>Framed\<close>, \<^verbatim>\<open>Frame\<close>, \<^verbatim>\<open>FrameSection\<close>\<close>

subsection \<open>Data\<close>

text \<open>
  \<^verbatim>\<open>Framed\<close> embeds the connection, an \<^verbatim>\<open>io.ReadWriteCloser\<close>: its read side and
  its write side, and \<^verbatim>\<open>hasReadInitial\<close>.
\<close>

record Framed =
  reader :: Source
  writer :: Sink
  hasReadInitial :: bool

text \<open>
  A \<^verbatim>\<open>FrameSection\<close> points back to its frame; here it is named by its place in the
  frame. Its \<^verbatim>\<open>init\<close> is nil or a function value; the only one the program ever stores
  is \<^verbatim>\<open>frame.Header.drain\<close>.
\<close>

datatype section_id = HeaderSec | BodySec

datatype init_fn = Header_drain

record FrameSection =
  init :: "init_fn option"
  bytesRemaining :: int
  startedReading :: bool

text \<open>\<^verbatim>\<open>headerLength\<close> and \<^verbatim>\<open>bodyLength\<close> are declared \<^verbatim>\<open>int16\<close>. The pointer to
  the \<^verbatim>\<open>Framed\<close> is the session the frame is passed along with.\<close>

record Frame =
  Header :: FrameSection
  Body :: FrameSection
  headerLength :: int16
  bodyLength :: int16

type_synonym world = "Framed \<times> Frame"

fun sect :: "section_id \<Rightarrow> Frame \<Rightarrow> FrameSection" where
  "sect HeaderSec f = Header f"
| "sect BodySec f = Body f"

fun sect_update :: "section_id \<Rightarrow> (FrameSection \<Rightarrow> FrameSection) \<Rightarrow> Frame \<Rightarrow> Frame" where
  "sect_update HeaderSec g f = f\<lparr>Header := g (Header f)\<rparr>"
| "sect_update BodySec g f = f\<lparr>Body := g (Body f)\<rparr>"

text \<open>The methods \<^verbatim>\<open>Read\<close> and \<^verbatim>\<open>Write\<close> of a \<^verbatim>\<open>Framed\<close> are those of the
  embedded connection.\<close>

definition Framed_Read :: "nat \<Rightarrow> Framed \<Rightarrow> (byte list \<times> error option) \<times> Framed" where
  "Framed_Read lp fr = (case Source_Read lp (reader fr) of (r, s') \<Rightarrow> (r, fr\<lparr>reader := s'\<rparr>))"

definition Framed_Write :: "byte list \<Rightarrow> Framed \<Rightarrow> (nat \<times> error option) \<times> Framed" where
  "Framed_Write p fr = (case Sink_Write p (writer fr) of (r, k') \<Rightarrow> (r, fr\<lparr>writer := k'\<rparr>))"

subsection \<open>Writing\<close>

definition writeHeaderTo :: "int16 \<Rightarrow> int16 \<Rightarrow> Sink \<Rightarrow> error option \<times> Sink" where
  "writeHeaderTo hl bl out =
     (case binary_Write hl out of
        (Some e, out') \<Rightarrow> (Some e, out')
      | (None, out') \<Rightarrow> binary_Write bl out')"

definition WriteHeader :: "int16 \<Rightarrow> int16 \<Rightarrow> Framed \<Rightarrow> error option \<times> Framed" where
  "WriteHeader hl bl fr = (case writeHeaderTo hl bl (writer fr) of (err, k') \<Rightarrow> (err, fr\<lparr>writer := k'\<rparr>))"

text \<open>\<^verbatim>\<open>int16(len(header))\<close> keeps the low 16 bits of the length: \<open>word_of_nat\<close>.\<close>

definition WriteFrame :: "byte list \<Rightarrow> byte list \<Rightarrow> Framed \<Rightarrow> error option \<times> Framed" where
  "WriteFrame header body fr =
     (case WriteHeader (word_of_nat (length header)) (word_of_nat (length body)) fr of
        (Some e, fr1) \<Rightarrow> (Some e, fr1)
      | (None, fr1) \<Rightarrow>
          (case Framed_Write header fr1 of
             ((n, Some e), fr2) \<Rightarrow> (Some e, fr2)
           | ((n, None), fr2) \<Rightarrow>
               (case Framed_Write body fr2 of ((n', err), fr3) \<Rightarrow> (err, fr3))))"

subsection \<open>Reading the length prefixes\<close>

text \<open>\<^verbatim>\<open>int(frame.headerLength)\<close> is the signed value of the 16 bits: \<open>sint\<close>.\<close>

definition readLengths :: "world \<Rightarrow> error option \<times> world" where
  "readLengths w =
     (case w of (fr, f) \<Rightarrow>
        (case binary_Read (reader fr) of
           (Inl e, r1) \<Rightarrow> (Some e, (fr\<lparr>reader := r1\<rparr>, f))
         | (Inr hl, r1) \<Rightarrow>
             (case binary_Read r1 of
                (Inl e, r2) \<Rightarrow> (Some e, (fr\<lparr>reader := r2\<rparr>, f\<lparr>headerLength := hl\<rparr>))
              | (Inr bl, r2) \<Rightarrow>
                  (None, (fr\<lparr>reader := r2\<rparr>,
                          f\<lparr>headerLength := hl, bodyLength := bl,
                            Header := (Header f)\<lparr>bytesRemaining := sint hl\<rparr>,
                            Body := (Body f)\<lparr>bytesRemaining := sint bl\<rparr>\<rparr>)))))"

text \<open>The frame \<^verbatim>\<open>nextFrame\<close> allocates before it reads the lengths: both sections
  zeroed, the body's \<^verbatim>\<open>init\<close> bound to the header's \<^verbatim>\<open>drain\<close>.\<close>

definition new_Frame :: Frame where
  "new_Frame =
     \<lparr>Header = \<lparr>init = None, bytesRemaining = 0, startedReading = False\<rparr>,
      Body = \<lparr>init = Some Header_drain, bytesRemaining = 0, startedReading = False\<rparr>,
      headerLength = 0, bodyLength = 0\<rparr>"

text \<open>\<^verbatim>\<open>nextFrame\<close> returns the frame it allocated also when \<^verbatim>\<open>readLengths\<close> fails.\<close>

definition nextFrame :: "Framed \<Rightarrow> (Frame \<times> error option) \<times> Framed" where
  "nextFrame fr = (case readLengths (fr, new_Frame) of (err, (fr', f)) \<Rightarrow> ((f, err), fr'))"

definition ReadInitial :: "Framed \<Rightarrow> (Frame option \<times> error option) \<times> Framed" where
  "ReadInitial fr =
     (if hasReadInitial fr
      then ((None, Some (AlreadyReadError ''Initial Frame already read'')), fr)
      else (case nextFrame fr of
              ((f, err), fr') \<Rightarrow> ((Some f, err), fr'\<lparr>hasReadInitial := True\<rparr>)))"

subsection \<open>Reading a section\<close>

text \<open>
  \<^verbatim>\<open>FrameSection.Read\<close> from the line \<^verbatim>\<open>section.startedReading = true\<close> on.
  \<^verbatim>\<open>p[0:section.bytesRemaining]\<close> panics when \<^verbatim>\<open>bytesRemaining\<close> is negative, and
  \<^verbatim>\<open>len(p) > section.bytesRemaining\<close> holds for every \<open>p\<close> then.
\<close>

definition Read_tail :: "section_id \<Rightarrow> nat \<Rightarrow> world \<Rightarrow> (byte list \<times> error option) \<times> world" where
  "Read_tail sid lp w =
     (case w of (fr, f) \<Rightarrow>
        let f1 = sect_update sid (\<lambda>x. x\<lparr>startedReading := True\<rparr>) f;
            rem = bytesRemaining (sect sid f1)
        in if rem < int lp \<and> rem < 0 then (([], Some PanicSliceBounds), (fr, f1))
           else
             (case Framed_Read (if rem < int lp then nat rem else lp) fr of
                ((bs, err), fr') \<Rightarrow>
                  let f2 = (if 0 < length bs
                            then sect_update sid
                                   (\<lambda>x. x\<lparr>bytesRemaining := bytesRemaining x - int (length bs)\<rparr>) f1
                            else f1)
                  in ((bs, if bytesRemaining (sect sid f2) = 0 then Some EOF else err), (fr', f2))))"

text \<open>
  \<^verbatim>\<open>FrameSection.Read\<close>, with \<open>run_init\<close> running the function stored in \<^verbatim>\<open>init\<close>.
  The first return is \<^verbatim>\<open>return 0, err\<close> with \<^verbatim>\<open>err\<close> still nil.
\<close>

definition Read_with ::
  "(init_fn \<Rightarrow> world \<Rightarrow> (error option \<times> world) option) \<Rightarrow>
   section_id \<Rightarrow> nat \<Rightarrow> world \<Rightarrow> ((byte list \<times> error option) \<times> world) option" where
  "Read_with run_init sid lp w =
     (if bytesRemaining (sect sid (snd w)) = 0 then Some (([], None), w)
      else
        Option.bind
          (case init (sect sid (snd w)) of
             None \<Rightarrow> Some (None, w)
           | Some fn \<Rightarrow> run_init fn w)
          (\<lambda>(ierr, w1).
             case ierr of
               Some e \<Rightarrow> Some (([], Some e), w1)
             | None \<Rightarrow> Some (Read_tail sid lp w1)))"

text \<open>\<^verbatim>\<open>FrameSection.drain\<close>, over the \<^verbatim>\<open>Read\<close> it copies from.\<close>

definition drain_with ::
  "(section_id \<Rightarrow> nat \<Rightarrow> world \<Rightarrow> ((byte list \<times> error option) \<times> world) option) \<Rightarrow>
   section_id \<Rightarrow> world \<Rightarrow> (error option \<times> world) option" where
  "drain_with rd sid w =
     (if 0 < bytesRemaining (sect sid (snd w)) then io_Copy_Discard (rd sid) w
      else Some (None, w))"

text \<open>
  The function value \<^verbatim>\<open>frame.Header.drain\<close> drains the header through the header's
  own \<^verbatim>\<open>Read\<close>. \<^verbatim>\<open>nextFrame\<close> leaves the header's \<^verbatim>\<open>init\<close> nil, so that
  \<^verbatim>\<open>Read\<close> runs no \<^verbatim>\<open>init\<close> in turn; a header whose \<^verbatim>\<open>init\<close> were its own
  \<^verbatim>\<open>drain\<close> would call itself without end, which is \<open>None\<close>.
\<close>

definition run_init :: "init_fn \<Rightarrow> world \<Rightarrow> (error option \<times> world) option" where
  "run_init fn w = (case fn of Header_drain \<Rightarrow> drain_with (Read_with (\<lambda>fn' w'. None)) HeaderSec w)"

definition FrameSection_Read ::
  "section_id \<Rightarrow> nat \<Rightarrow> world \<Rightarrow> ((byte list \<times> error option) \<times> world) option" where
  "FrameSection_Read sid lp w = Read_with run_init sid lp w"

definition drain :: "section_id \<Rightarrow> world \<Rightarrow> (error option \<times> world) option" where
  "drain sid w = drain_with FrameSection_Read sid w"

subsection \<open>Advancing and copying\<close>

text \<open>\<^verbatim>\<open>Frame.NextFrame\<close> returns a nil frame when a drain fails, and what
  \<^verbatim>\<open>nextFrame\<close> returns otherwise.\<close>

definition NextFrame :: "world \<Rightarrow> ((Frame option \<times> error option) \<times> world) option" where
  "NextFrame w =
     Option.bind (drain HeaderSec w)
       (\<lambda>(err, w1).
          case err of
            Some e \<Rightarrow> Some ((None, Some e), w1)
          | None \<Rightarrow>
              Option.bind (drain BodySec w1)
                (\<lambda>(err, w2).
                   case err of
                     Some e \<Rightarrow> Some ((None, Some e), w2)
                   | None \<Rightarrow>
                       (case nextFrame (fst w2) of
                          ((nf, err), fr') \<Rightarrow> Some ((Some nf, err), (fr', snd w2)))))"

text \<open>
  \<^verbatim>\<open>Frame.CopyTo\<close>. The sum \<^verbatim>\<open>frame.headerLength+frame.bodyLength\<close> is an
  \<^verbatim>\<open>int16\<close> sum, which wraps, and \<^verbatim>\<open>int64(...)\<close> reads it signed.
\<close>

definition CopyTo :: "Sink \<Rightarrow> world \<Rightarrow> error option \<times> Sink \<times> world" where
  "CopyTo out w =
     (case w of (fr, f) \<Rightarrow>
        if startedReading (Header f) \<or> startedReading (Body f)
        then (Some (AlreadyReadError ''Already read from frame, cannot copy''), out, w)
        else
          (case writeHeaderTo (headerLength f) (bodyLength f) out of
             (Some e, out') \<Rightarrow> (Some e, out', w)
           | (None, out') \<Rightarrow>
               (case io_CopyN (sint (headerLength f + bodyLength f)) (reader fr) out' of
                  ((n, err), r', out'') \<Rightarrow> (err, out'', (fr\<lparr>reader := r'\<rparr>, f)))))"

text \<open>\<^verbatim>\<open>NewFramed\<close> wraps a connection.\<close>

definition NewFramed :: "Source \<Rightarrow> Sink \<Rightarrow> Framed" where
  "NewFramed r k = \<lparr>reader = r, writer = k, hasReadInitial = False\<rparr>"

section \<open>Single-section framing: \<^verbatim>\<open>Reader\<close> and \<^verbatim>\<open>Writer\<close> of \<^verbatim>\<open>framed.go\<close>\<close>

text \<open>
  The methods of \<^verbatim>\<open>framed.go\<close> assign to \<^verbatim>\<open>innern\<close> and \<^verbatim>\<open>innererr\<close>, which
  the file does not declare. They are taken as variables of the package, an \<^verbatim>\<open>int\<close>
  and an \<^verbatim>\<open>error\<close>; they are not the named results \<^verbatim>\<open>n\<close> and \<^verbatim>\<open>err\<close> of the
  methods. A named result that a method never assigns is zero (\<open>0\<close>, nil) at a bare
  \<^verbatim>\<open>return\<close>. The mutex is left out: a call runs alone.
\<close>

record pkg_vars =
  innern :: int
  innererr :: "error option"

definition MaxFrameLength :: int where
  "MaxFrameLength = 2 ^ 16 - 1"

text \<open>
  \<^verbatim>\<open>Reader.Read(buffer)\<close> with \<open>bufferSize = len(buffer)\<close>. The result is
  \<^verbatim>\<open>(n, err)\<close> and the bytes stored into \<^verbatim>\<open>buffer\<close>. \<^verbatim>\<open>n\<close> is never assigned,
  also where the message of the error formats it.
\<close>

definition Reader_Read ::
  "nat \<Rightarrow> Source \<times> pkg_vars \<Rightarrow> ((int \<times> error option) \<times> byte list) \<times> (Source \<times> pkg_vars)" where
  "Reader_Read bufferSize st =
     (case st of (stream, v) \<Rightarrow>
        let n = 0; err = None in
        (case binary_Read stream of
           (Inl e, s1) \<Rightarrow> (((n, err), []), (s1, v\<lparr>innererr := Some e\<rparr>))
         | (Inr nb, s1) \<Rightarrow>
             let v1 = v\<lparr>innern := uint nb, innererr := None\<rparr> in
             if innern v1 > int bufferSize
             then (((0, Some (BufferTooSmallFor (int bufferSize) n)), []), (s1, v1))
             else
               (case ReadFull (nat (innern v1)) s1 of
                  ((bs, e), s2) \<Rightarrow>
                    (((n, err), bs), (s2, v1\<lparr>innern := int (length bs), innererr := e\<rparr>)))))"

text \<open>\<^verbatim>\<open>Writer.Write(frame)\<close>: the length is kept in \<^verbatim>\<open>innern\<close>, which the check and
  the prefix use.\<close>

definition Writer_Write ::
  "byte list \<Rightarrow> Sink \<times> pkg_vars \<Rightarrow> (int \<times> error option) \<times> (Sink \<times> pkg_vars)" where
  "Writer_Write frame st =
     (case st of (stream, v) \<Rightarrow>
        let n = 0; err = None;
            v1 = v\<lparr>innern := int (length frame)\<rparr> in
        if innern v1 > MaxFrameLength then ((0, Some (TooLong n MaxFrameLength)), (stream, v1))
        else
          (case binary_Write (word_of_int (innern v1)) stream of
             (Some e, k1) \<Rightarrow> ((n, err), (k1, v1\<lparr>innererr := Some e\<rparr>))
           | (None, k1) \<Rightarrow>
               (case Sink_Write frame k1 of
                  ((written, Some e), k2) \<Rightarrow> ((n, err), (k2, v1\<lparr>innererr := Some e\<rparr>))
                | ((written, None), k2) \<Rightarrow>
                    ((n, err),
                     (k2, v1\<lparr>innererr :=
                              (if int written \<noteq> innern v1
                               then Some (WrittenMismatch (int written) n) else None)\<rparr>)))))"

text \<open>The second loop of \<^verbatim>\<open>WritePieces\<close>: the bytes written so far, and the error
  that ends the loop early.\<close>

fun write_pieces :: "byte list list \<Rightarrow> int \<Rightarrow> Sink \<Rightarrow> (int \<times> error option) \<times> Sink" where
  "write_pieces [] written k = ((written, None), k)"
| "write_pieces (piece # pieces) written k =
     (case Sink_Write piece k of
        ((nw, Some e), k') \<Rightarrow> ((written, Some e), k')
      | ((nw, None), k') \<Rightarrow> write_pieces pieces (written + int nw) k')"

text \<open>
  \<^verbatim>\<open>Writer.WritePieces(pieces...)\<close>. The first loop adds the lengths up in
  \<^verbatim>\<open>innern\<close>; the check \<^verbatim>\<open>n > MaxFrameLength\<close>, the prefix \<^verbatim>\<open>uint16(n)\<close> and the
  comparison \<^verbatim>\<open>written != n\<close> read \<^verbatim>\<open>n\<close>.
\<close>

definition WritePieces ::
  "byte list list \<Rightarrow> Sink \<times> pkg_vars \<Rightarrow> (int \<times> error option) \<times> (Sink \<times> pkg_vars)" where
  "WritePieces pieces st =
     (case st of (stream, v) \<Rightarrow>
        let n = 0; err = None;
            v1 = v\<lparr>innern := foldl (\<lambda>a piece. a + int (length piece)) (innern v) pieces\<rparr> in
        if n > MaxFrameLength then ((0, Some (TooLong n MaxFrameLength)), (stream, v1))
        else
          (case binary_Write (word_of_int n) stream of
             (Some e, k1) \<Rightarrow> ((n, err), (k1, v1\<lparr>innererr := Some e\<rparr>))
           | (None, k1) \<Rightarrow>
               (case write_pieces pieces 0 k1 of
                  ((written, Some e), k2) \<Rightarrow> ((n, err), (k2, v1\<lparr>innererr := Some e\<rparr>))
                | ((written, None), k2) \<Rightarrow>
                    ((n, err),
                     (k2, v1\<lparr>innererr :=
                              (if written \<noteq> n
                               then Some (WrittenMismatch written n) else None)\<rparr>)))))"

section \<open>Auxiliary notions for the proofs\<close>

text \<open>
  A section is \<open>quiet\<close> when running its \<^verbatim>\<open>init\<close> changes nothing: it has none, or
  it is the body and the header has nothing left to drain.
\<close>

definition quiet :: "section_id \<Rightarrow> Frame \<Rightarrow> bool" where
  "quiet sid f = (init (sect sid f) = None \<or> (sid = BodySec \<and> bytesRemaining (Header f) \<le> 0))"

text \<open>
  What \<^verbatim>\<open>drain\<close> leaves behind when it runs on a quiet section with \<open>r\<close> bytes
  remaining: the stream has lost its first \<open>r\<close> bytes (all of them, if it held fewer),
  the section is marked as read and its counter is down by the bytes that were there.
  The error is the one of the stream when it held fewer than \<open>r\<close> bytes, unless that
  error is \<open>EOF\<close>, which \<^verbatim>\<open>io.Copy\<close> does not return.
\<close>

definition after_drain :: "section_id \<Rightarrow> world \<Rightarrow> error option \<times> world" where
  "after_drain sid w =
     (case w of (fr, f) \<Rightarrow>
        let r = nat (bytesRemaining (sect sid f)); P = pending (reader fr)
        in (if r \<le> length P \<or> at_end (reader fr) = EOF then None else Some (at_end (reader fr)),
            (fr\<lparr>reader := (reader fr)\<lparr>pending := drop r P\<rparr>\<rparr>,
             sect_update sid
               (\<lambda>x. x\<lparr>startedReading := True,
                       bytesRemaining := bytesRemaining x - int (min r (length P))\<rparr>) f)))"

text \<open>
  \<open>later w w'\<close>: the session and frame \<open>w'\<close> can be what is left after any number of
  calls, starting from \<open>w\<close>: reads and drains of a section, \<^verbatim>\<open>NextFrame\<close>,
  \<^verbatim>\<open>CopyTo\<close>, \<^verbatim>\<open>WriteFrame\<close>, \<^verbatim>\<open>WriteHeader\<close>, \<^verbatim>\<open>ReadInitial\<close>, and
  \<^verbatim>\<open>Read\<close> and \<^verbatim>\<open>Write\<close> on the connection itself. The calls may be made on any
  frame, also on one the session never returned.
\<close>

inductive later :: "world \<Rightarrow> world \<Rightarrow> bool" where
  later_same: "later w w"
| later_frame: "later w (fr1, f1) \<Longrightarrow> later w (fr1, f2)"
| later_Read: "later w w1 \<Longrightarrow> FrameSection_Read sid lp w1 = Some (r, w2) \<Longrightarrow> later w w2"
| later_drain: "later w w1 \<Longrightarrow> drain sid w1 = Some (e, w2) \<Longrightarrow> later w w2"
| later_NextFrame: "later w w1 \<Longrightarrow> NextFrame w1 = Some (r, w2) \<Longrightarrow> later w w2"
| later_CopyTo: "later w w1 \<Longrightarrow> CopyTo out w1 = (e, out', w2) \<Longrightarrow> later w w2"
| later_WriteFrame:
    "later w (fr1, f1) \<Longrightarrow> WriteFrame header body fr1 = (e, fr2) \<Longrightarrow> later w (fr2, f1)"
| later_WriteHeader:
    "later w (fr1, f1) \<Longrightarrow> WriteHeader hl bl fr1 = (e, fr2) \<Longrightarrow> later w (fr2, f1)"
| later_ReadInitial:
    "later w (fr1, f1) \<Longrightarrow> ReadInitial fr1 = (r, fr2) \<Longrightarrow> later w (fr2, f1)"
| later_conn_Read:
    "later w (fr1, f1) \<Longrightarrow> Framed_Read lp fr1 = (r, fr2) \<Longrightarrow> later w (fr2, f1)"
| later_conn_Write:
    "later w (fr1, f1) \<Longrightarrow> Framed_Write p fr1 = (r, fr2) \<Longrightarrow> later w (fr2, f1)"

section \<open>Lemmas\<close>

subsection \<open>Codec and \<^verbatim>\<open>io.ReadFull\<close>\<close>

lemma Uint16_PutUint16: "Uint16 (PutUint16 v) = v"
  unfolding PutUint16_def
  apply simp
  apply (rule bit_word_eqI)
  apply (auto simp: bit_simps)
  done

lemma sint_of_nat16:
  assumes "n \<le> 32767"
  shows "sint (word_of_nat n :: 16 word) = int n"
proof -
  have "sint (word_of_nat n :: 16 word) = sint (word_of_int (int n) :: 16 word)"
    by simp
  also have "\<dots> = signed_take_bit (LENGTH(16) - 1) (int n)"
    by (rule sint_sbintrunc')
  also have "\<dots> = int n"
    by (rule signed_take_bit_int_eq_self) (use assms in simp_all)
  finally show ?thesis .
qed

lemma sint_add16:
  assumes "0 \<le> sint (a :: 16 word)" "0 \<le> sint (b :: 16 word)" "sint a + sint b \<le> 32767"
  shows "sint (a + b) = sint a + sint b"
proof -
  have "sint (a + b) = signed_take_bit 15 (sint a + sint b)"
    by (simp add: sint_word_ariths)
  also have "\<dots> = sint a + sint b"
    by (rule signed_take_bit_int_eq_self) (use assms in simp_all)
  finally show ?thesis .
qed

lemma sint_16_cases:
  "sint (L :: 16 word) = (if unat L < 32768 then int (unat L) else int (unat L) - 65536)"
proof -
  define k where "k = uint L"
  have u: "k = int (unat L)" unfolding k_def by (rule uint_nat)
  have b: "0 \<le> k" "k < 65536" using uint_bounded[of L] by (simp_all add: k_def)
  have tb: "take_bit 16 k = k"
    using b by (simp add: take_bit_int_eq_self)
  have "k div 32768 = (if k < 32768 then 0 else 1)"
    using b by auto
  then have bit: "bit k 15 \<longleftrightarrow> \<not> k < 32768"
    by (simp add: bit_iff_odd)
  have "sint L = signed_take_bit 15 k"
    by (simp add: sint_uint k_def)
  also have "\<dots> = take_bit (Suc 15) k - 2 ^ Suc 15 * of_bool (bit k 15)"
    by (rule signed_take_bit_eq_take_bit_minus)
  also have "\<dots> = (if k < 32768 then k else k - 65536)"
    using tb bit by simp
  finally have s: "sint L = (if k < 32768 then k else k - 65536)" .
  show ?thesis
  proof (cases "unat L < 32768")
    case True
    then have "k < 32768" using u by linarith
    then have "sint L = int (unat L)" using s u by (simp only: if_True)
    then show ?thesis using True by (simp only: if_True)
  next
    case False
    then have "\<not> k < 32768" using u by linarith
    then have "sint L = int (unat L) - 65536" using s u by (simp only: if_False)
    then show ?thesis using False by (simp only: if_False)
  qed
qed

lemma PutUint16_len [simp]: "length (PutUint16 v) = 2"
  by (simp add: PutUint16_def)

lemma Source_Read_data:
  "pending s \<noteq> [] \<Longrightarrow>
   Source_Read lp s =
     ((take (min lp (Suc (short s))) (pending s),
       if eager s \<and> length (pending s) \<le> min lp (Suc (short s)) then Some (at_end s) else None),
      s\<lparr>pending := drop (min lp (Suc (short s))) (pending s)\<rparr>)"
  by (simp add: Source_Read_def)

lemma Source_Read_empty: "pending s = [] \<Longrightarrow> Source_Read lp s = (([], Some (at_end s)), s)"
  by (simp add: Source_Read_def)

lemma ReadFull_loop_enough:
  "mn - length got \<le> length (pending s) \<Longrightarrow>
   \<exists>e. ReadFull_loop mn got s =
     ((got @ take (mn - length got) (pending s), e),
      s\<lparr>pending := drop (mn - length got) (pending s)\<rparr>)"
proof (induction mn got s rule: ReadFull_loop.induct)
  case (1 mn got s)
  show ?case
  proof (cases "length got < mn")
    case False
    then show ?thesis by (subst ReadFull_loop.simps) simp
  next
    case True
    with "1.prems" have ne: "pending s \<noteq> []" by auto
    define k where "k = min (mn - length got) (Suc (short s))"
    define bs where "bs = take k (pending s)"
    define s' where "s' = s\<lparr>pending := drop k (pending s)\<rparr>"
    have kb: "0 < k" "k \<le> mn - length got" "k \<le> length (pending s)"
      using True "1.prems" by (auto simp: k_def)
    have len: "length bs = k" using kb by (simp add: bs_def)
    show ?thesis
    proof (cases "eager s \<and> length (pending s) \<le> k")
      case last: True
      then have eq: "k = mn - length got" "k = length (pending s)"
        using kb "1.prems" by auto
      have rd: "Source_Read (mn - length got) s = ((bs, Some (at_end s)), s')"
        using ne last by (simp add: Source_Read_data k_def bs_def s'_def)
      have "ReadFull_loop mn got s = ((got @ bs, Some (at_end s)), s')"
        using True by (subst ReadFull_loop.simps) (simp add: rd)
      then show ?thesis
        using eq by (auto simp: bs_def s'_def)
    next
      case more: False
      have rd: "Source_Read (mn - length got) s = ((bs, None), s')"
        using ne more by (auto simp: Source_Read_data k_def bs_def s'_def)
      have "\<exists>e. ReadFull_loop mn (got @ bs) s' =
         (((got @ bs) @ take (mn - length (got @ bs)) (pending s'), e),
          s'\<lparr>pending := drop (mn - length (got @ bs)) (pending s')\<rparr>)"
        apply (rule "1.IH"[OF True rd[symmetric]])
        using "1.prems" True kb len by (auto simp: s'_def)
      then obtain e where IH: "ReadFull_loop mn (got @ bs) s' =
         (((got @ bs) @ take (mn - length (got @ bs)) (pending s'), e),
          s'\<lparr>pending := drop (mn - length (got @ bs)) (pending s')\<rparr>)"
        by blast
      have bytes: "bs @ take (mn - length (got @ bs)) (pending s') = take (mn - length got) (pending s)"
      proof -
        have "mn - length got = k + (mn - length (got @ bs))"
          using kb len by simp
        then show ?thesis
          by (metis bs_def s'_def take_add Source.simps(5) Source.select_convs(1) Source.surjective
              Source.update_convs(1))
      qed
      have rest: "s'\<lparr>pending := drop (mn - length (got @ bs)) (pending s')\<rparr>
                  = s\<lparr>pending := drop (mn - length got) (pending s)\<rparr>"
        using kb len by (simp add: s'_def add.commute)
      have "ReadFull_loop mn got s = ReadFull_loop mn (got @ bs) s'"
        using True by (subst ReadFull_loop.simps) (simp add: rd del: ReadFull_loop.simps)
      then show ?thesis
        using IH bytes rest by (simp del: ReadFull_loop.simps)
    qed
  qed
qed

lemma ReadFull_loop_short:
  "length (pending s) < mn - length got \<Longrightarrow>
   ReadFull_loop mn got s = ((got @ pending s, Some (at_end s)), s\<lparr>pending := []\<rparr>)"
proof (induction mn got s rule: ReadFull_loop.induct)
  case (1 mn got s)
  from "1.prems" have lt: "length got < mn" by simp
  show ?case
  proof (cases "pending s = []")
    case True
    then show ?thesis
      using lt by (subst ReadFull_loop.simps) (simp add: Source_Read_empty)
  next
    case ne: False
    define k where "k = min (mn - length got) (Suc (short s))"
    define bs where "bs = take k (pending s)"
    define s' where "s' = s\<lparr>pending := drop k (pending s)\<rparr>"
    have kb: "0 < k" "k \<le> mn - length got"
      using lt by (auto simp: k_def)
    show ?thesis
    proof (cases "eager s \<and> length (pending s) \<le> k")
      case last: True
      have rd: "Source_Read (mn - length got) s = ((bs, Some (at_end s)), s')"
        using ne last by (simp add: Source_Read_data k_def bs_def s'_def)
      have "ReadFull_loop mn got s = ((got @ bs, Some (at_end s)), s')"
        using lt by (subst ReadFull_loop.simps) (simp add: rd)
      then show ?thesis
        using last by (simp add: bs_def s'_def)
    next
      case more: False
      have rd: "Source_Read (mn - length got) s = ((bs, None), s')"
        using ne more by (auto simp: Source_Read_data k_def bs_def s'_def)
      have IH: "ReadFull_loop mn (got @ bs) s' =
         (((got @ bs) @ pending s', Some (at_end s')), s'\<lparr>pending := []\<rparr>)"
        apply (rule "1.IH"[OF lt rd[symmetric]])
        using "1.prems" lt kb by (auto simp: s'_def bs_def)
      have "ReadFull_loop mn got s = ReadFull_loop mn (got @ bs) s'"
        using lt by (subst ReadFull_loop.simps) (simp add: rd del: ReadFull_loop.simps)
      then show ?thesis
        using IH by (simp add: bs_def s'_def del: ReadFull_loop.simps)
    qed
  qed
qed

lemma ReadFull_enough:
  "mn \<le> length (pending s) \<Longrightarrow>
   ReadFull mn s = ((take mn (pending s), None), s\<lparr>pending := drop mn (pending s)\<rparr>)"
proof -
  assume le: "mn \<le> length (pending s)"
  then obtain e where "ReadFull_loop mn [] s =
     ((take mn (pending s), e), s\<lparr>pending := drop mn (pending s)\<rparr>)"
    using ReadFull_loop_enough[of mn "[]" s] by auto
  then show ?thesis
    using le by (simp add: ReadFull_def del: ReadFull_loop.simps)
qed

lemma ReadFull_short:
  "length (pending s) < mn \<Longrightarrow>
   ReadFull mn s =
     ((pending s, Some (if pending s \<noteq> [] \<and> at_end s = EOF then ErrUnexpectedEOF else at_end s)),
      s\<lparr>pending := []\<rparr>)"
  by (simp add: ReadFull_def ReadFull_loop_short del: ReadFull_loop.simps)

lemma binary_Read_enough:
  "pending s = a # b # rest \<Longrightarrow> binary_Read s = (Inr (Uint16 [a, b]), s\<lparr>pending := rest\<rparr>)"
  by (simp add: binary_Read_def ReadFull_enough)

lemma binary_Read_short:
  "length (pending s) < 2 \<Longrightarrow>
   binary_Read s =
     (Inl (if pending s \<noteq> [] \<and> at_end s = EOF then ErrUnexpectedEOF else at_end s), s\<lparr>pending := []\<rparr>)"
  by (simp add: binary_Read_def ReadFull_short)

lemma binary_Read_PutUint16:
  assumes "pending s = PutUint16 v @ rest"
  shows "binary_Read s = (Inr v, s\<lparr>pending := rest\<rparr>)"
proof -
  have P: "pending s = ucast v # ucast (drop_bit 8 v) # rest"
    using assms by (simp add: PutUint16_def)
  have "Uint16 [ucast v, ucast (drop_bit 8 v)] = v"
    using Uint16_PutUint16[of v] unfolding PutUint16_def .
  then show ?thesis
    using binary_Read_enough[OF P] by simp
qed

subsection \<open>Writing to a stream that never fails\<close>

lemma Sink_Write_unlimited:
  "Sink_Write p \<lparr>sent = s, room = None\<rparr> = ((length p, None), \<lparr>sent = s @ p, room = None\<rparr>)"
  by (simp add: Sink_Write_def)

lemma writeHeaderTo_unlimited:
  "writeHeaderTo hl bl \<lparr>sent = s, room = None\<rparr> =
     (None, \<lparr>sent = s @ PutUint16 hl @ PutUint16 bl, room = None\<rparr>)"
  by (simp add: writeHeaderTo_def binary_Write_def Sink_Write_unlimited)

lemma WriteFrame_unlimited:
  "WriteFrame header body \<lparr>reader = r, writer = \<lparr>sent = s, room = None\<rparr>, hasReadInitial = b\<rparr> =
     (None, \<lparr>reader = r,
             writer = \<lparr>sent = s @ PutUint16 (word_of_nat (length header))
                               @ PutUint16 (word_of_nat (length body)) @ header @ body,
                       room = None\<rparr>,
             hasReadInitial = b\<rparr>)"
  by (simp add: WriteFrame_def WriteHeader_def writeHeaderTo_def binary_Write_def Framed_Write_def
      Sink_Write_unlimited)

lemma write_pieces_unlimited:
  "write_pieces pieces w \<lparr>sent = s, room = None\<rparr> =
     ((w + int (length (concat pieces)), None), \<lparr>sent = s @ concat pieces, room = None\<rparr>)"
  by (induction pieces arbitrary: w s) (simp_all add: Sink_Write_unlimited)

lemma foldl_lengths: "foldl (\<lambda>a piece. a + int (length piece)) a0 pieces = a0 + int (length (concat pieces))"
  by (induction pieces arbitrary: a0) simp_all

lemma WritePieces_unlimited:
  "WritePieces pieces (\<lparr>sent = s, room = None\<rparr>, v) =
     ((0, None),
      (\<lparr>sent = s @ [0, 0] @ concat pieces, room = None\<rparr>,
       v\<lparr>innern := innern v + int (length (concat pieces)),
         innererr := (if concat pieces \<noteq> [] then Some (WrittenMismatch (int (length (concat pieces))) 0) else None)\<rparr>))"
  by (simp add: WritePieces_def Let_def MaxFrameLength_def binary_Write_def PutUint16_def
      Sink_Write_unlimited write_pieces_unlimited foldl_lengths)

lemma Writer_Write_too_long:
  "65535 < length frame \<Longrightarrow>
   Writer_Write frame (k, v) = ((0, Some (TooLong 0 65535)), (k, v\<lparr>innern := int (length frame)\<rparr>))"
  by (simp add: Writer_Write_def Let_def MaxFrameLength_def)

lemma Writer_Write_unlimited:
  "length frame \<le> 65535 \<Longrightarrow>
   Writer_Write frame (\<lparr>sent = s, room = None\<rparr>, v) =
     ((0, None),
      (\<lparr>sent = s @ PutUint16 (word_of_nat (length frame)) @ frame, room = None\<rparr>,
       v\<lparr>innern := int (length frame), innererr := None\<rparr>))"
  by (simp add: Writer_Write_def Let_def MaxFrameLength_def binary_Write_def Sink_Write_unlimited)

subsection \<open>Reading the length prefixes\<close>

lemma Framed_reader_same: "pending (reader fr) = [] \<Longrightarrow> fr\<lparr>reader := (reader fr)\<lparr>pending := []\<rparr>\<rparr> = fr"
  by (metis Framed.surjective Framed.update_convs(1) Source.surjective Source.update_convs(1))

lemma nextFrame_enough:
  "pending (reader fr) = a # b # c # d # rest \<Longrightarrow>
   nextFrame fr =
     ((\<lparr>Header = \<lparr>init = None, bytesRemaining = sint (Uint16 [a, b]), startedReading = False\<rparr>,
        Body = \<lparr>init = Some Header_drain, bytesRemaining = sint (Uint16 [c, d]),
                startedReading = False\<rparr>,
        headerLength = Uint16 [a, b], bodyLength = Uint16 [c, d]\<rparr>, None),
      fr\<lparr>reader := (reader fr)\<lparr>pending := rest\<rparr>\<rparr>)"
  by (simp add: nextFrame_def readLengths_def binary_Read_enough new_Frame_def)

lemma nextFrame_PutUint16:
  assumes "pending (reader fr) = PutUint16 hl @ PutUint16 bl @ rest"
  shows "nextFrame fr =
     ((\<lparr>Header = \<lparr>init = None, bytesRemaining = sint hl, startedReading = False\<rparr>,
        Body = \<lparr>init = Some Header_drain, bytesRemaining = sint bl, startedReading = False\<rparr>,
        headerLength = hl, bodyLength = bl\<rparr>, None),
      fr\<lparr>reader := (reader fr)\<lparr>pending := rest\<rparr>\<rparr>)"
proof -
  have 1: "binary_Read (reader fr) = (Inr hl, (reader fr)\<lparr>pending := PutUint16 bl @ rest\<rparr>)"
    by (rule binary_Read_PutUint16) (simp add: assms)
  have 2: "binary_Read ((reader fr)\<lparr>pending := PutUint16 bl @ rest\<rparr>)
             = (Inr bl, (reader fr)\<lparr>pending := rest\<rparr>)"
    using binary_Read_PutUint16[of "(reader fr)\<lparr>pending := PutUint16 bl @ rest\<rparr>" bl rest]
    by simp
  show ?thesis
    by (simp add: nextFrame_def readLengths_def 1 2 new_Frame_def)
qed

lemma nextFrame_at_end:
  "pending (reader fr) = [] \<Longrightarrow> nextFrame fr = ((new_Frame, Some (at_end (reader fr))), fr)"
  by (simp add: nextFrame_def readLengths_def binary_Read_short Framed_reader_same)

lemma nextFrame_short:
  "length (pending (reader fr)) < 4 \<Longrightarrow>
   \<exists>f. nextFrame fr =
     ((f, Some (if length (pending (reader fr)) \<in> {1, 3} \<and> at_end (reader fr) = EOF
                then ErrUnexpectedEOF else at_end (reader fr))),
      fr\<lparr>reader := (reader fr)\<lparr>pending := []\<rparr>\<rparr>)"
proof (cases "length (pending (reader fr)) < 2")
  case True
  then show ?thesis
    by (cases "pending (reader fr)") (auto simp: nextFrame_def readLengths_def binary_Read_short)
next
  case False
  then obtain a b rest where P: "pending (reader fr) = a # b # rest"
    by (cases "pending (reader fr)"; cases "tl (pending (reader fr))") auto
  assume "length (pending (reader fr)) < 4"
  then have "length rest < 2" using P by simp
  then show ?thesis
    using P by (cases rest) (auto simp: nextFrame_def readLengths_def binary_Read_enough binary_Read_short)
qed

lemma ReadInitial_already:
  "hasReadInitial fr \<Longrightarrow>
   ReadInitial fr = ((None, Some (AlreadyReadError ''Initial Frame already read'')), fr)"
  by (simp add: ReadInitial_def)

lemma ReadInitial_sets: "hasReadInitial (snd (ReadInitial fr))"
  by (simp add: ReadInitial_def split: prod.splits)

subsection \<open>Reading and draining a section\<close>

lemma sect_sect_update [simp]: "sect sid (sect_update sid g f) = g (sect sid f)"
  by (cases sid) simp_all

lemma sect_update_twice [simp]:
  "sect_update sid g (sect_update sid h f) = sect_update sid (\<lambda>x. g (h x)) f"
  by (cases sid) simp_all

lemma Header_sect_update_Body [simp]: "Header (sect_update BodySec g f) = Header f"
  by simp

lemma Read_tail_empty:
  "pending (reader fr) = [] \<Longrightarrow> 0 < bytesRemaining (sect sid f) \<Longrightarrow>
   Read_tail sid lp (fr, f) =
     (([], Some (at_end (reader fr))), (fr, sect_update sid (\<lambda>x. x\<lparr>startedReading := True\<rparr>) f))"
  by (simp add: Read_tail_def Framed_Read_def Source_Read_def Let_def)

lemma Read_tail_data:
  assumes "pending (reader fr) \<noteq> []" and "0 < bytesRemaining (sect sid f)" and "0 < lp"
  shows "Read_tail sid lp (fr, f) =
     (let d = min (min lp (nat (bytesRemaining (sect sid f)))) (Suc (short (reader fr)));
          k = min d (length (pending (reader fr)))
      in ((take d (pending (reader fr)),
           if bytesRemaining (sect sid f) = int k then Some EOF
           else if eager (reader fr) \<and> length (pending (reader fr)) \<le> d
                then Some (at_end (reader fr)) else None),
          (fr\<lparr>reader := (reader fr)\<lparr>pending := drop d (pending (reader fr))\<rparr>\<rparr>,
           sect_update sid
             (\<lambda>x. x\<lparr>startedReading := True, bytesRemaining := bytesRemaining x - int k\<rparr>) f)))"
proof -
  obtain a P where P: "pending (reader fr) = a # P"
    using assms(1) by (cases "pending (reader fr)") auto
  show ?thesis
    using assms(2,3) P
    by (cases sid) (auto simp: Read_tail_def Framed_Read_def Source_Read_def Let_def min_def)
qed

lemma run_init_idle:
  "bytesRemaining (Header f) \<le> 0 \<Longrightarrow> run_init fn (fr, f) = Some (None, (fr, f))"
  by (cases fn) (simp add: run_init_def drain_with_def)

lemma Read_quiet:
  "quiet sid f \<Longrightarrow> bytesRemaining (sect sid f) \<noteq> 0 \<Longrightarrow>
   FrameSection_Read sid lp (fr, f) = Some (Read_tail sid lp (fr, f))"
  by (auto simp: quiet_def FrameSection_Read_def Read_with_def run_init_idle split: option.splits)

lemma Read_negative:
  "bytesRemaining (sect sid f) < 0 \<Longrightarrow> quiet sid f \<Longrightarrow>
   FrameSection_Read sid lp (fr, f) =
     Some (([], Some PanicSliceBounds), (fr, sect_update sid (\<lambda>x. x\<lparr>startedReading := True\<rparr>) f))"
  by (simp add: Read_quiet Read_tail_def Let_def)

lemma quiet_sect_update:
  "quiet sid f \<Longrightarrow> init (g (sect sid f)) = init (sect sid f) \<Longrightarrow> quiet sid (sect_update sid g f)"
  by (cases sid) (auto simp: quiet_def)

lemma blackHole_len_pos: "0 < blackHole_len"
  by (simp add: blackHole_len_def)

lemma copy_closed:
  assumes rd: "\<And>fr f. Q f \<Longrightarrow> bytesRemaining (sect sid f) \<noteq> 0 \<Longrightarrow>
                 rd blackHole_len (fr, f) = Some (Read_tail sid blackHole_len (fr, f))"
    and inv: "\<And>f g. Q f \<Longrightarrow> init (g (sect sid f)) = init (sect sid f) \<Longrightarrow> Q (sect_update sid g f)"
  shows "Q f \<Longrightarrow> 0 < bytesRemaining (sect sid f) \<Longrightarrow>
   io_Copy_Discard rd (fr, f) = Some (after_drain sid (fr, f))"
proof (induction "nat (bytesRemaining (sect sid f))" arbitrary: fr f rule: less_induct)
  case less
  let ?r = "bytesRemaining (sect sid f)"
  let ?P = "pending (reader fr)"
  have rd: "rd blackHole_len (fr, f) = Some (Read_tail sid blackHole_len (fr, f))"
    using less.prems by (simp add: rd)
  show ?case
  proof (cases "?P = []")
    case True
    then show ?thesis
      using less.prems True
      apply (subst io_Copy_Discard.simps)
      apply (simp add: rd Read_tail_empty after_drain_def Framed_reader_same)
      done
  next
    case False
    define d where "d = min (min blackHole_len (nat ?r)) (Suc (short (reader fr)))"
    define k where "k = min d (length ?P)"
    define fr' where "fr' = fr\<lparr>reader := (reader fr)\<lparr>pending := drop d ?P\<rparr>\<rparr>"
    define f' where "f' = sect_update sid (\<lambda>x. x\<lparr>startedReading := True, bytesRemaining := bytesRemaining x - int k\<rparr>) f"
    define last where "last \<longleftrightarrow> eager (reader fr) \<and> length ?P \<le> d"
    have tail: "Read_tail sid blackHole_len (fr, f) =
        ((take d ?P, if ?r = int k then Some EOF
                     else if last then Some (at_end (reader fr)) else None), (fr', f'))"
      using Read_tail_data[OF False less.prems(2) blackHole_len_pos]
      by (simp add: Let_def d_def k_def fr'_def f'_def last_def)
    have kpos: "0 < k" "int k \<le> ?r" "k \<le> d" "d \<le> nat ?r"
      using False less.prems(2) blackHole_len_pos by (auto simp: k_def d_def)
    consider (fin) "?r = int k" | (ended) "?r \<noteq> int k" "last" | (more) "?r \<noteq> int k" "\<not> last"
      by blast
    then show ?thesis
    proof cases
      case fin
      then have "d = nat ?r" "nat ?r \<le> length ?P"
        using kpos by (auto simp: k_def)
      then show ?thesis
        using fin
        apply (subst io_Copy_Discard.simps)
        apply (simp add: rd tail after_drain_def fr'_def f'_def)
        done
    next
      case ended
      then have all: "length ?P \<le> d" "k = length ?P" "length ?P < nat ?r"
        using kpos by (auto simp: k_def last_def)
      have out: "io_Copy_Discard rd (fr, f) =
          Some (if at_end (reader fr) = EOF then None else Some (at_end (reader fr)), (fr', f'))"
        using ended
        apply (subst io_Copy_Discard.simps)
        apply (simp add: rd tail)
        done
      have "after_drain sid (fr, f) =
          (if at_end (reader fr) = EOF then None else Some (at_end (reader fr)), (fr', f'))"
        using all by (simp add: after_drain_def fr'_def f'_def Let_def min_def)
      then show ?thesis
        using out by simp
    next
      case more
      then have neq: "?r \<noteq> int k" and nl: "\<not> last" by simp_all
      have q': "Q f'"
        unfolding f'_def using less.prems(1) by (rule inv) simp
      have r': "bytesRemaining (sect sid f') = ?r - int k"
        by (simp add: f'_def)
      have pos': "0 < bytesRemaining (sect sid f')"
        using r' kpos neq by simp
      have lt: "nat (bytesRemaining (sect sid f')) < nat ?r"
        using r' kpos by simp
      have IH: "io_Copy_Discard rd (fr', f') = Some (after_drain sid (fr', f'))"
        by (rule less.hyps[OF lt q' pos'])
      have same: "after_drain sid (fr', f') = after_drain sid (fr, f)"
        using kpos neq r'
        apply (simp add: after_drain_def fr'_def f'_def Let_def)
        apply (auto simp: k_def min_def nat_diff_distrib split: if_splits)
        done
      show ?thesis
        using neq nl
        apply (subst io_Copy_Discard.simps)
        apply (simp add: rd tail IH same)
        done
    qed
  qed
qed

lemma copy_quiet:
  "quiet sid f \<Longrightarrow> 0 < bytesRemaining (sect sid f) \<Longrightarrow>
   io_Copy_Discard (FrameSection_Read sid) (fr, f) = Some (after_drain sid (fr, f))"
  by (rule copy_closed[where Q = "quiet sid"]) (simp_all add: Read_quiet quiet_sect_update)

lemma run_init_drains:
  assumes "init (Header f) = None" "0 < bytesRemaining (Header f)"
  shows "run_init fn (fr, f) = Some (after_drain HeaderSec (fr, f))"
proof -
  have "io_Copy_Discard (Read_with (\<lambda>fn' w'. None) HeaderSec) (fr, f) = Some (after_drain HeaderSec (fr, f))"
  proof (rule copy_closed[where Q = "\<lambda>f. init (Header f) = None"])
    show "init (Header f) = None" by (rule assms)
    show "0 < bytesRemaining (sect HeaderSec f)" using assms by simp
  qed (simp_all add: Read_with_def)
  then show ?thesis
    using assms by (cases fn) (simp add: run_init_def drain_with_def)
qed

lemma Body_Read_drains_header:
  assumes "init (Header f) = None" "init (Body f) = Some Header_drain"
    "0 < bytesRemaining (Header f)" "nat (bytesRemaining (Header f)) \<le> length (pending (reader fr))"
    "bytesRemaining (Body f) \<noteq> 0"
  shows "FrameSection_Read BodySec lp (fr, f) =
         FrameSection_Read BodySec lp
           (fr\<lparr>reader := (reader fr)\<lparr>pending := drop (nat (bytesRemaining (Header f))) (pending (reader fr))\<rparr>\<rparr>,
            f\<lparr>Header := (Header f)\<lparr>startedReading := True, bytesRemaining := 0\<rparr>\<rparr>)"
  using assms
  by (simp add: FrameSection_Read_def Read_with_def run_init_drains run_init_idle after_drain_def)

lemma ReadAll_quiet:
  "quiet sid f \<Longrightarrow> 0 < bytesRemaining (sect sid f) \<Longrightarrow> 0 < bl \<Longrightarrow>
   ReadAll_loop (FrameSection_Read sid) bl acc (fr, f) =
     Some ((acc @ take (nat (bytesRemaining (sect sid f))) (pending (reader fr)),
            fst (after_drain sid (fr, f))),
           snd (after_drain sid (fr, f)))"
proof (induction "nat (bytesRemaining (sect sid f))" arbitrary: fr f acc rule: less_induct)
  case less
  let ?r = "bytesRemaining (sect sid f)"
  let ?P = "pending (reader fr)"
  have rd: "FrameSection_Read sid bl (fr, f) = Some (Read_tail sid bl (fr, f))"
    using less.prems by (simp add: Read_quiet)
  show ?case
  proof (cases "?P = []")
    case True
    then show ?thesis
      using less.prems True
      apply (subst ReadAll_loop.simps)
      apply (simp add: rd Read_tail_empty after_drain_def Framed_reader_same)
      done
  next
    case False
    define d where "d = min (min bl (nat ?r)) (Suc (short (reader fr)))"
    define k where "k = min d (length ?P)"
    define fr' where "fr' = fr\<lparr>reader := (reader fr)\<lparr>pending := drop d ?P\<rparr>\<rparr>"
    define f' where "f' = sect_update sid (\<lambda>x. x\<lparr>startedReading := True, bytesRemaining := bytesRemaining x - int k\<rparr>) f"
    define last where "last \<longleftrightarrow> eager (reader fr) \<and> length ?P \<le> d"
    have tail: "Read_tail sid bl (fr, f) =
        ((take d ?P, if ?r = int k then Some EOF
                     else if last then Some (at_end (reader fr)) else None), (fr', f'))"
      using Read_tail_data[OF False less.prems(2) less.prems(3)]
      by (simp add: Let_def d_def k_def fr'_def f'_def last_def)
    have kpos: "0 < k" "int k \<le> ?r" "k \<le> d" "d \<le> nat ?r"
      using False less.prems(2,3) by (auto simp: k_def d_def)
    consider (fin) "?r = int k" | (ended) "?r \<noteq> int k" "last" | (more) "?r \<noteq> int k" "\<not> last"
      by blast
    then show ?thesis
    proof cases
      case fin
      then have "d = nat ?r" "nat ?r \<le> length ?P"
        using kpos by (auto simp: k_def)
      then show ?thesis
        using fin
        apply (subst ReadAll_loop.simps)
        apply (simp add: rd tail after_drain_def fr'_def f'_def)
        done
    next
      case ended
      then have all: "length ?P \<le> d" "k = length ?P" "length ?P < nat ?r"
        using kpos by (auto simp: k_def last_def)
      have out: "ReadAll_loop (FrameSection_Read sid) bl acc (fr, f) =
          Some ((acc @ take d ?P,
                 if at_end (reader fr) = EOF then None else Some (at_end (reader fr))), (fr', f'))"
        using ended
        apply (subst ReadAll_loop.simps)
        apply (simp add: rd tail)
        done
      have "after_drain sid (fr, f) =
          (if at_end (reader fr) = EOF then None else Some (at_end (reader fr)), (fr', f'))"
        using all by (simp add: after_drain_def fr'_def f'_def Let_def min_def)
      then show ?thesis
        using out all by simp
    next
      case more
      then have neq: "?r \<noteq> int k" and nl: "\<not> last" by simp_all
      have q': "quiet sid f'"
        unfolding f'_def using less.prems(1) by (rule quiet_sect_update) simp
      have r': "bytesRemaining (sect sid f') = ?r - int k"
        by (simp add: f'_def)
      have pos': "0 < bytesRemaining (sect sid f')"
        using r' kpos neq by simp
      have lt: "nat (bytesRemaining (sect sid f')) < nat ?r"
        using r' kpos by simp
      have IH: "ReadAll_loop (FrameSection_Read sid) bl (acc @ take d ?P) (fr', f') =
          Some (((acc @ take d ?P) @ take (nat (bytesRemaining (sect sid f'))) (pending (reader fr')),
            fst (after_drain sid (fr', f'))), snd (after_drain sid (fr', f')))"
        by (rule less.hyps[OF lt q' pos' less.prems(3)])
      have same: "after_drain sid (fr', f') = after_drain sid (fr, f)"
        using kpos neq r'
        apply (simp add: after_drain_def fr'_def f'_def Let_def)
        apply (auto simp: k_def min_def nat_diff_distrib split: if_splits)
        done
      have bytes: "take d ?P @ take (nat (bytesRemaining (sect sid f'))) (pending (reader fr'))
          = take (nat ?r) ?P"
      proof -
        have "nat ?r = d + nat (bytesRemaining (sect sid f')) \<or> length ?P \<le> d"
          using kpos neq r' by (auto simp: k_def min_def split: if_splits)
        then show ?thesis
          using kpos by (auto simp: fr'_def take_add)
      qed
      show ?thesis
        using neq nl bytes
        apply (subst ReadAll_loop.simps)
        apply (simp add: rd tail IH same)
        done
    qed
  qed
qed

lemma drain_idle: "bytesRemaining (sect sid (snd w)) \<le> 0 \<Longrightarrow> drain sid w = Some (None, w)"
  by (simp add: drain_def drain_with_def)

lemma drain_quiet:
  "quiet sid f \<Longrightarrow> 0 < bytesRemaining (sect sid f) \<Longrightarrow>
   drain sid (fr, f) = Some (after_drain sid (fr, f))"
  by (simp add: drain_def drain_with_def copy_quiet)

lemma run_init_at_eof:
  assumes "init (Header f) = None" "0 < bytesRemaining (Header f)"
    "pending (reader fr) = []" "at_end (reader fr) = EOF"
  shows "run_init fn (fr, f) = Some (None, (fr, f\<lparr>Header := (Header f)\<lparr>startedReading := True\<rparr>\<rparr>))"
  using assms
  apply (cases fn)
  apply (simp add: run_init_def drain_with_def)
  apply (subst io_Copy_Discard.simps)
  apply (simp add: Read_with_def Read_tail_empty[where sid=HeaderSec, simplified])
  done

lemma Body_drain_at_eof:
  assumes "init (Header f) = None" "init (Body f) = Some Header_drain" "0 < bytesRemaining (Header f)"
    "pending (reader fr) = []" "at_end (reader fr) = EOF" "0 < bytesRemaining (Body f)"
  shows "drain BodySec (fr, f) =
     Some (None, (fr, f\<lparr>Header := (Header f)\<lparr>startedReading := True\<rparr>,
                        Body := (Body f)\<lparr>startedReading := True\<rparr>\<rparr>))"
  using assms
  apply (simp add: drain_def drain_with_def)
  apply (subst io_Copy_Discard.simps)
  apply (simp add: FrameSection_Read_def Read_with_def run_init_at_eof
      Read_tail_empty[where sid=BodySec, simplified])
  done

lemma io_CopyN_negative: "n < 0 \<Longrightarrow> io_CopyN n src dst = ((0, None), src, dst)"
  by (simp add: io_CopyN_def)

lemma io_Copy_limited_closed:
  "0 \<le> N \<Longrightarrow>
   io_Copy_limited N wr src \<lparr>sent = s, room = None\<rparr> =
     ((wr + min (nat N) (length (pending src)),
       if (nat N \<le> length (pending src) \<and> \<not> (eager src \<and> nat N = length (pending src) \<and> 0 < N))
          \<or> at_end src = EOF
       then None else Some (at_end src)),
      src\<lparr>pending := drop (nat N) (pending src)\<rparr>,
      \<lparr>sent = s @ take (nat N) (pending src), room = None\<rparr>)"
proof (induction "nat N" arbitrary: N wr src s rule: less_induct)
  case less
  show ?case
  proof (cases "N = 0")
    case True
    then show ?thesis by (subst io_Copy_limited.simps) simp
  next
    case False
    then have pos: "0 < N" using less.prems by simp
    show ?thesis
    proof (cases "pending src = []")
      case True
      then show ?thesis
        using pos by (subst io_Copy_limited.simps) (simp add: Source_Read_empty)
    next
      case ne: False
      define d where "d = min (min 32768 (nat N)) (Suc (short src))"
      define k where "k = min d (length (pending src))"
      define bs where "bs = take d (pending src)"
      define src' where "src' = src\<lparr>pending := drop d (pending src)\<rparr>"
      have kpos: "0 < k" "k \<le> d" "d \<le> nat N"
        using ne pos by (auto simp: k_def d_def)
      have len: "length bs = k" by (simp add: k_def bs_def)
      have bpos: "0 < length bs" using len kpos by simp
      show ?thesis
      proof (cases "eager src \<and> length (pending src) \<le> d")
        case last: True
        then have all: "k = length (pending src)" "bs = pending src" "length (pending src) \<le> nat N"
          "src' = src\<lparr>pending := drop (nat N) (pending src)\<rparr>"
          using kpos by (auto simp: k_def bs_def src'_def)
        have rd: "Source_Read (min 32768 (nat N)) src = ((bs, Some (at_end src)), src')"
          using ne last by (simp add: Source_Read_data d_def bs_def src'_def)
        have "io_Copy_limited N wr src \<lparr>sent = s, room = None\<rparr> =
            ((wr + length bs, if at_end src = EOF then None else Some (at_end src)),
             src', \<lparr>sent = s @ bs, room = None\<rparr>)"
          apply (subst io_Copy_limited.simps)
          using pos bpos
          apply (simp add: rd Sink_Write_unlimited del: io_Copy_limited.simps)
          done
        then show ?thesis
          using all last pos by (auto simp: min_def)
      next
        case more: False
        have rd: "Source_Read (min 32768 (nat N)) src = ((bs, None), src')"
          using ne more by (auto simp: Source_Read_data d_def bs_def src'_def)
        have IH: "io_Copy_limited (N - int k) (wr + k) src' \<lparr>sent = s @ bs, room = None\<rparr> =
           ((wr + k + min (nat (N - int k)) (length (pending src')),
             if (nat (N - int k) \<le> length (pending src')
                 \<and> \<not> (eager src' \<and> nat (N - int k) = length (pending src') \<and> 0 < N - int k))
                \<or> at_end src' = EOF
             then None else Some (at_end src')),
            src'\<lparr>pending := drop (nat (N - int k)) (pending src')\<rparr>,
            \<lparr>sent = (s @ bs) @ take (nat (N - int k)) (pending src'), room = None\<rparr>)"
          apply (rule less.hyps)
          using kpos pos by auto
        have split: "nat N = d + nat (N - int k) \<or> length (pending src) \<le> d"
          using kpos pos by (auto simp: k_def min_def split: if_splits)
        have bytes: "bs @ take (nat (N - int k)) (pending src') = take (nat N) (pending src)"
          using split kpos by (auto simp: take_add bs_def src'_def)
        have rest: "src'\<lparr>pending := drop (nat (N - int k)) (pending src')\<rparr>
                    = src\<lparr>pending := drop (nat N) (pending src)\<rparr>"
          using split kpos by (auto simp: add.commute src'_def)
        have cnt: "k + min (nat (N - int k)) (length (pending src')) = min (nat N) (length (pending src))"
          using split kpos pos by (auto simp: k_def min_def src'_def split: if_splits)
        have cond: "(nat (N - int k) \<le> length (pending src')
                     \<and> \<not> (eager src' \<and> nat (N - int k) = length (pending src') \<and> 0 < N - int k))
                  = (nat N \<le> length (pending src)
                     \<and> \<not> (eager src \<and> nat N = length (pending src) \<and> 0 < N))"
          using split kpos pos more by (auto simp: k_def min_def src'_def split: if_splits)
        have e: "at_end src' = at_end src" by (simp add: src'_def)
        have IH': "io_Copy_limited (N - int (length bs)) (wr + length bs) src' \<lparr>sent = s @ bs, room = None\<rparr> =
           ((wr + min (nat N) (length (pending src)),
             if (nat N \<le> length (pending src) \<and> \<not> (eager src \<and> nat N = length (pending src) \<and> 0 < N))
                \<or> at_end src = EOF
             then None else Some (at_end src)),
            src\<lparr>pending := drop (nat N) (pending src)\<rparr>,
            \<lparr>sent = s @ take (nat N) (pending src), room = None\<rparr>)"
          unfolding len IH rest cond e
          using cnt bytes by (simp add: add.assoc)
        show ?thesis
          apply (subst io_Copy_limited.simps)
          using pos bpos
          apply (simp add: rd Sink_Write_unlimited IH' del: io_Copy_limited.simps)
          done
      qed
    qed
  qed
qed

lemma io_CopyN_enough:
  "0 \<le> n \<Longrightarrow> nat n \<le> length (pending src) \<Longrightarrow>
   io_CopyN n src \<lparr>sent = s, room = None\<rparr> =
     ((nat n, None), src\<lparr>pending := drop (nat n) (pending src)\<rparr>,
      \<lparr>sent = s @ take (nat n) (pending src), room = None\<rparr>)"
  by (simp add: io_CopyN_def io_Copy_limited_closed del: io_Copy_limited.simps)

lemma Read_marks_started:
  assumes "FrameSection_Read sid lp w = Some ((bs, err), w')" and "bs \<noteq> []"
  shows "startedReading (sect sid (snd w'))"
proof -
  obtain w1 where "Read_tail sid lp w1 = ((bs, err), w')"
    using assms
    by (auto simp: FrameSection_Read_def Read_with_def split: if_splits option.splits
        elim!: bind_eq_Some_conv[THEN iffD1, elim_format])
  then show ?thesis
    using assms(2)
    by (cases w1) (auto simp: Read_tail_def Let_def split: if_splits prod.splits)
qed

lemma Read_in_range:
  assumes "quiet sid f" "0 \<le> bytesRemaining (sect sid f)"
    and "FrameSection_Read sid lp (fr, f) = Some ((bs, err), (fr', f'))"
  shows "bytesRemaining (sect sid f') = bytesRemaining (sect sid f) - int (length bs)
       \<and> 0 \<le> bytesRemaining (sect sid f')
       \<and> (bytesRemaining (sect sid f') = 0 \<and> bytesRemaining (sect sid f) \<noteq> 0 \<longrightarrow> err = Some EOF)"
proof (cases "bytesRemaining (sect sid f) = 0")
  case True
  then show ?thesis using assms(3) by (simp add: FrameSection_Read_def Read_with_def)
next
  case False
  then have t: "Read_tail sid lp (fr, f) = ((bs, err), (fr', f'))"
    using assms by (simp add: Read_quiet)
  show ?thesis
    using t assms(2) False
    by (cases sid)
      (auto simp: Read_tail_def Let_def Framed_Read_def Source_Read_def min_def
        split: if_splits prod.splits)
qed

lemma CopyTo_after_read:
  "startedReading (Header f) \<or> startedReading (Body f) \<Longrightarrow>
   CopyTo out (fr, f) = (Some (AlreadyReadError ''Already read from frame, cannot copy''), out, (fr, f))"
  by (auto simp: CopyTo_def)

subsection \<open>No call resets \<^verbatim>\<open>hasReadInitial\<close>\<close>

lemma io_Copy_Discard_invariant:
  assumes "io_Copy_Discard rd w = Some y"
    and "\<And>lp w r w'. rd lp w = Some (r, w') \<Longrightarrow> I w \<Longrightarrow> I w'"
    and "I w"
  shows "I (snd y)"
proof -
  have "(\<forall>lp w r w'. rd lp w = Some (r, w') \<longrightarrow> I w \<longrightarrow> I w') \<longrightarrow> I w \<longrightarrow> I (snd y)"
  proof (rule io_Copy_Discard.raw_induct
      [where P = "\<lambda>rd w y. (\<forall>lp w r w'. rd lp w = Some (r, w') \<longrightarrow> I w \<longrightarrow> I w') \<longrightarrow> I w \<longrightarrow> I (snd y)",
        OF _ assms(1)])
    fix copy :: "(nat \<Rightarrow> 'a \<Rightarrow> ((byte list \<times> error option) \<times> 'a) option) \<Rightarrow> 'a \<Rightarrow> (error option \<times> 'a) option"
      and rd w y
    assume IH: "\<And>rd w y. copy rd w = Some y \<Longrightarrow>
        (\<forall>lp w r w'. rd lp w = Some (r, w') \<longrightarrow> I w \<longrightarrow> I w') \<longrightarrow> I w \<longrightarrow> I (snd y)"
      and unfold: "Option.bind (rd blackHole_len w)
        (\<lambda>((bs, err), w').
            case err of None \<Rightarrow> copy rd w'
            | Some e \<Rightarrow> Some (if e = EOF then None else Some e, w')) = Some y"
    show "(\<forall>lp w r w'. rd lp w = Some (r, w') \<longrightarrow> I w \<longrightarrow> I w') \<longrightarrow> I w \<longrightarrow> I (snd y)"
    proof (intro impI)
      assume step: "\<forall>lp w r w'. rd lp w = Some (r, w') \<longrightarrow> I w \<longrightarrow> I w'" and Iw: "I w"
      from unfold obtain bs err w1 where rd: "rd blackHole_len w = Some ((bs, err), w1)"
        and rest: "(case err of None \<Rightarrow> copy rd w1
                    | Some e \<Rightarrow> Some (if e = EOF then None else Some e, w1)) = Some y"
        by (auto simp: bind_eq_Some_conv)
      have I1: "I w1" using step rd Iw by blast
      show "I (snd y)"
      proof (cases err)
        case None
        then have c: "copy rd w1 = Some y" using rest by simp
        show ?thesis using IH[OF c] step I1 by blast
      next
        case (Some e)
        then show ?thesis using rest I1 by auto
      qed
    qed
  qed
  then show ?thesis using assms(2,3) by blast
qed

lemma Read_tail_flag: "hasReadInitial (fst (snd (Read_tail sid lp w))) = hasReadInitial (fst w)"
  by (cases w) (simp add: Read_tail_def Let_def Framed_Read_def split: prod.splits)

lemma Read_with_flag:
  assumes "Read_with run sid lp w = Some (r, w')"
    and "\<And>fn w e w'. run fn w = Some (e, w') \<Longrightarrow> hasReadInitial (fst w') = hasReadInitial (fst w)"
  shows "hasReadInitial (fst w') = hasReadInitial (fst w)"
proof (cases "bytesRemaining (sect sid (snd w)) = 0")
  case True
  then show ?thesis using assms(1) by (simp add: Read_with_def)
next
  case False
  then obtain ierr w1 where
    i: "(case init (sect sid (snd w)) of None \<Rightarrow> Some (None, w) | Some fn \<Rightarrow> run fn w) = Some (ierr, w1)"
    and t: "(case ierr of Some e \<Rightarrow> Some (([], Some e), w1) | None \<Rightarrow> Some (Read_tail sid lp w1)) = Some (r, w')"
    using assms(1) by (auto simp: Read_with_def bind_eq_Some_conv)
  have 1: "hasReadInitial (fst w1) = hasReadInitial (fst w)"
    using i assms(2) by (auto split: option.splits)
  have 2: "hasReadInitial (fst w') = hasReadInitial (fst w1)"
    using t Read_tail_flag[of sid lp w1] by (auto split: option.splits)
  show ?thesis using 1 2 by simp
qed

lemma drain_with_flag:
  assumes "drain_with rd sid w = Some (e, w')"
    and "\<And>sid lp w r w'. rd sid lp w = Some (r, w') \<Longrightarrow> hasReadInitial (fst w') = hasReadInitial (fst w)"
  shows "hasReadInitial (fst w') = hasReadInitial (fst w)"
proof (cases "0 < bytesRemaining (sect sid (snd w))")
  case False
  then show ?thesis using assms(1) by (simp add: drain_with_def)
next
  case True
  then have c: "io_Copy_Discard (rd sid) w = Some (e, w')"
    using assms(1) by (simp add: drain_with_def)
  have "hasReadInitial (fst (snd (e, w'))) = hasReadInitial (fst w)"
    by (rule io_Copy_Discard_invariant[OF c, where I = "\<lambda>x. hasReadInitial (fst x) = hasReadInitial (fst w)"])
      (use assms(2) in auto)
  then show ?thesis by simp
qed

lemma run_init_flag:
  "run_init fn w = Some (e, w') \<Longrightarrow> hasReadInitial (fst w') = hasReadInitial (fst w)"
  unfolding run_init_def
  by (cases fn) (auto elim!: drain_with_flag Read_with_flag)

lemma FrameSection_Read_flag:
  "FrameSection_Read sid lp w = Some (r, w') \<Longrightarrow> hasReadInitial (fst w') = hasReadInitial (fst w)"
  unfolding FrameSection_Read_def
  by (erule Read_with_flag) (rule run_init_flag)

lemma drain_flag:
  "drain sid w = Some (e, w') \<Longrightarrow> hasReadInitial (fst w') = hasReadInitial (fst w)"
  unfolding drain_def
  by (erule drain_with_flag) (rule FrameSection_Read_flag)

lemma nextFrame_flag: "hasReadInitial (snd (nextFrame fr)) = hasReadInitial fr"
  by (simp add: nextFrame_def readLengths_def split: prod.splits sum.splits)

lemma NextFrame_flag:
  assumes "NextFrame w = Some (r, w')"
  shows "hasReadInitial (fst w') = hasReadInitial (fst w)"
proof -
  obtain e1 w1 where d1: "drain HeaderSec w = Some (e1, w1)"
    using assms by (auto simp: NextFrame_def bind_eq_Some_conv)
  have f1: "hasReadInitial (fst w1) = hasReadInitial (fst w)" by (rule drain_flag[OF d1])
  show ?thesis
  proof (cases e1)
    case (Some e)
    then show ?thesis using assms d1 f1 by (simp add: NextFrame_def)
  next
    case None
    then obtain e2 w2 where d2: "drain BodySec w1 = Some (e2, w2)"
      using assms d1 by (auto simp: NextFrame_def bind_eq_Some_conv)
    have f2: "hasReadInitial (fst w2) = hasReadInitial (fst w1)" by (rule drain_flag[OF d2])
    show ?thesis
      using assms d1 d2 None f1 f2 nextFrame_flag[of "fst w2"]
      by (cases e2) (auto simp: NextFrame_def split: prod.splits)
  qed
qed

lemma CopyTo_flag: "CopyTo out w = (e, out', w') \<Longrightarrow> hasReadInitial (fst w') = hasReadInitial (fst w)"
  by (cases w) (auto simp: CopyTo_def split: if_splits prod.splits option.splits)

lemma WriteHeader_flag: "hasReadInitial (snd (WriteHeader hl bl fr)) = hasReadInitial fr"
  by (simp add: WriteHeader_def split: prod.splits)

lemma WriteFrame_flag: "hasReadInitial (snd (WriteFrame header body fr)) = hasReadInitial fr"
  using WriteHeader_flag[of "word_of_nat (length header)" "word_of_nat (length body)" fr]
  by (auto simp: WriteFrame_def Framed_Write_def split: prod.splits option.splits)

lemma Framed_Read_flag: "hasReadInitial (snd (Framed_Read lp fr)) = hasReadInitial fr"
  by (simp add: Framed_Read_def split: prod.splits)

lemma Framed_Write_flag: "hasReadInitial (snd (Framed_Write p fr)) = hasReadInitial fr"
  by (simp add: Framed_Write_def split: prod.splits)

lemma later_flag: "later w w' \<Longrightarrow> hasReadInitial (fst w) \<Longrightarrow> hasReadInitial (fst w')"
proof (induction rule: later.induct)
  case (later_same w)
  then show ?case by simp
next
  case (later_frame w fr1 f1 f2)
  then show ?case by simp
next
  case (later_Read w w1 sid lp r w2)
  then show ?case using FrameSection_Read_flag by blast
next
  case (later_drain w w1 sid e w2)
  then show ?case using drain_flag by blast
next
  case (later_NextFrame w w1 r w2)
  then show ?case using NextFrame_flag by blast
next
  case (later_CopyTo w w1 out e out' w2)
  then show ?case using CopyTo_flag by blast
next
  case (later_WriteFrame w fr1 f1 header body e fr2)
  then show ?case using WriteFrame_flag[of header body fr1] by simp
next
  case (later_WriteHeader w fr1 f1 hl bl e fr2)
  then show ?case using WriteHeader_flag[of hl bl fr1] by simp
next
  case (later_ReadInitial w fr1 f1 r fr2)
  then show ?case using ReadInitial_sets[of fr1] by simp
next
  case (later_conn_Read w fr1 f1 lp r fr2)
  then show ?case using Framed_Read_flag[of lp fr1] by simp
next
  case (later_conn_Write w fr1 f1 p r fr2)
  then show ?case using Framed_Write_flag[of p fr1] by simp
qed

section \<open>What the sectioned framing does deliver\<close>

text \<open>
  A frame whose header and body have between 1 and 32767 bytes each comes back as it
  was written: \<^verbatim>\<open>WriteFrame\<close> on one session, \<^verbatim>\<open>ReadInitial\<close> on the peer, then
  \<^verbatim>\<open>ioutil.ReadAll\<close> on the header and on the body. The peer's stream may deliver the
  bytes in pieces of any size (\<open>sh\<close>), and \<open>bl\<close> is the room \<^verbatim>\<open>ReadAll\<close> offers.
\<close>

theorem WriteFrame_Read_roundtrip:
  assumes "0 < length H" "length H \<le> 32767" "0 < length B" "length B \<le> 32767" "0 < bl"
  shows "\<exists>fw f fr1 w2 w3.
     WriteFrame H B (NewFramed r \<lparr>sent = [], room = None\<rparr>) = (None, fw)
     \<and> ReadInitial (NewFramed \<lparr>pending = sent (writer fw), at_end = e, short = sh, eager = eg\<rparr> k)
         = ((Some f, None), fr1)
     \<and> ReadAll (FrameSection_Read HeaderSec) bl (fr1, f) = Some ((H, None), w2)
     \<and> ReadAll (FrameSection_Read BodySec) bl w2 = Some ((B, None), w3)
     \<and> pending (reader (fst w3)) = []"
proof -
  let ?hl = "word_of_nat (length H) :: 16 word" and ?bl = "word_of_nat (length B) :: 16 word"
  define fw where "fw = \<lparr>reader = r, writer = \<lparr>sent = PutUint16 ?hl @ PutUint16 ?bl @ H @ B, room = None\<rparr>,
      hasReadInitial = False\<rparr>"
  define f where "f = \<lparr>Header = \<lparr>init = None, bytesRemaining = int (length H), startedReading = False\<rparr>,
        Body = \<lparr>init = Some Header_drain, bytesRemaining = int (length B), startedReading = False\<rparr>,
        headerLength = ?hl, bodyLength = ?bl\<rparr>"
  define fr1 where "fr1 = \<lparr>reader = \<lparr>pending = H @ B, at_end = e, short = sh, eager = eg\<rparr>, writer = k,
      hasReadInitial = True\<rparr>"
  define fr2 where "fr2 = fr1\<lparr>reader := (reader fr1)\<lparr>pending := B\<rparr>\<rparr>"
  define f2 where "f2 = f\<lparr>Header := (Header f)\<lparr>startedReading := True, bytesRemaining := 0\<rparr>\<rparr>"
  define fr3 where "fr3 = fr1\<lparr>reader := (reader fr1)\<lparr>pending := []\<rparr>\<rparr>"
  define f3 where "f3 = f2\<lparr>Body := (Body f2)\<lparr>startedReading := True, bytesRemaining := 0\<rparr>\<rparr>"
  have w: "WriteFrame H B (NewFramed r \<lparr>sent = [], room = None\<rparr>) = (None, fw)"
    by (simp add: NewFramed_def WriteFrame_unlimited fw_def)
  have sH: "sint ?hl = int (length H)" and sB: "sint ?bl = int (length B)"
    using assms by (simp_all add: sint_of_nat16)
  have ri: "ReadInitial (NewFramed \<lparr>pending = sent (writer fw), at_end = e, short = sh, eager = eg\<rparr> k)
         = ((Some f, None), fr1)"
    using nextFrame_PutUint16[of "NewFramed \<lparr>pending = sent (writer fw), at_end = e, short = sh, eager = eg\<rparr> k" ?hl ?bl "H @ B"]
    by (simp add: ReadInitial_def NewFramed_def fw_def f_def fr1_def sH sB)
  have qh: "quiet HeaderSec f" by (simp add: quiet_def f_def)
  have rh: "ReadAll (FrameSection_Read HeaderSec) bl (fr1, f) = Some ((H, None), (fr2, f2))"
    unfolding ReadAll_def
    using ReadAll_quiet[OF qh _ assms(5), of "[]" fr1] assms(1)
    by (simp add: f_def fr1_def fr2_def f2_def after_drain_def)
  have qb: "quiet BodySec f2" by (simp add: quiet_def f2_def)
  have rb: "ReadAll (FrameSection_Read BodySec) bl (fr2, f2) = Some ((B, None), (fr3, f3))"
    unfolding ReadAll_def
    using ReadAll_quiet[OF qb _ assms(5), of "[]" fr2] assms(3)
    by (simp add: f_def fr1_def fr2_def f2_def fr3_def f3_def after_drain_def)
  have "pending (reader (fst (fr3, f3))) = []" by (simp add: fr3_def)
  with w ri rh rb show ?thesis by blast
qed

text \<open>The round trip of the header \<open>01 02 03\<close> and the body \<open>04 05\<close>.\<close>

theorem WriteFrame_Read_roundtrip_witness:
  "\<exists>fw f fr1 w2 w3.
     WriteFrame [1, 2, 3] [4, 5] (NewFramed \<lparr>pending = [], at_end = EOF, short = 0, eager = False\<rparr> \<lparr>sent = [], room = None\<rparr>)
       = (None, fw)
     \<and> ReadInitial (NewFramed \<lparr>pending = sent (writer fw), at_end = EOF, short = 0, eager = False\<rparr>
                      \<lparr>sent = [], room = None\<rparr>)
         = ((Some f, None), fr1)
     \<and> ReadAll (FrameSection_Read HeaderSec) 512 (fr1, f) = Some (([1, 2, 3], None), w2)
     \<and> ReadAll (FrameSection_Read BodySec) 512 w2 = Some (([4, 5], None), w3)
     \<and> pending (reader (fst w3)) = []"
  using WriteFrame_Read_roundtrip [of "[1, 2, 3]" "[4, 5]" 512
      "\<lparr>pending = [], at_end = EOF, short = 0, eager = False\<rparr>" EOF 0 False "\<lparr>sent = [], room = None\<rparr>"]
  by simp

text \<open>
  Reading the body without having read the header skips the header's bytes: the body
  comes back alone, and the stream is left at the first byte after the frame.
\<close>

theorem Read_body_skips_header:
  assumes "0 < length H" "length H \<le> 32767" "0 < length B" "length B \<le> 32767" "0 < bl"
  shows "\<exists>fw f fr1 w2.
     WriteFrame H B (NewFramed r \<lparr>sent = [], room = None\<rparr>) = (None, fw)
     \<and> ReadInitial (NewFramed \<lparr>pending = sent (writer fw) @ rest, at_end = e, short = sh, eager = eg\<rparr> k)
         = ((Some f, None), fr1)
     \<and> ReadAll (FrameSection_Read BodySec) bl (fr1, f) = Some ((B, None), w2)
     \<and> pending (reader (fst w2)) = rest"
proof -
  let ?hl = "word_of_nat (length H) :: 16 word" and ?bl = "word_of_nat (length B) :: 16 word"
  define fw where "fw = \<lparr>reader = r, writer = \<lparr>sent = PutUint16 ?hl @ PutUint16 ?bl @ H @ B, room = None\<rparr>,
      hasReadInitial = False\<rparr>"
  define f where "f = \<lparr>Header = \<lparr>init = None, bytesRemaining = int (length H), startedReading = False\<rparr>,
        Body = \<lparr>init = Some Header_drain, bytesRemaining = int (length B), startedReading = False\<rparr>,
        headerLength = ?hl, bodyLength = ?bl\<rparr>"
  define fr1 where "fr1 = \<lparr>reader = \<lparr>pending = H @ B @ rest, at_end = e, short = sh, eager = eg\<rparr>, writer = k,
      hasReadInitial = True\<rparr>"
  define fr2 where "fr2 = fr1\<lparr>reader := (reader fr1)\<lparr>pending := B @ rest\<rparr>\<rparr>"
  define f2 where "f2 = f\<lparr>Header := (Header f)\<lparr>startedReading := True, bytesRemaining := 0\<rparr>\<rparr>"
  define fr3 where "fr3 = fr1\<lparr>reader := (reader fr1)\<lparr>pending := rest\<rparr>\<rparr>"
  define f3 where "f3 = f2\<lparr>Body := (Body f2)\<lparr>startedReading := True, bytesRemaining := 0\<rparr>\<rparr>"
  have w: "WriteFrame H B (NewFramed r \<lparr>sent = [], room = None\<rparr>) = (None, fw)"
    by (simp add: NewFramed_def WriteFrame_unlimited fw_def)
  have sH: "sint ?hl = int (length H)" and sB: "sint ?bl = int (length B)"
    using assms by (simp_all add: sint_of_nat16)
  have ri: "ReadInitial (NewFramed \<lparr>pending = sent (writer fw) @ rest, at_end = e, short = sh, eager = eg\<rparr> k)
         = ((Some f, None), fr1)"
    using nextFrame_PutUint16[of "NewFramed \<lparr>pending = sent (writer fw) @ rest, at_end = e, short = sh, eager = eg\<rparr> k" ?hl ?bl "H @ B @ rest"]
    by (simp add: ReadInitial_def NewFramed_def fw_def f_def fr1_def sH sB)
  have first: "FrameSection_Read BodySec bl (fr1, f) = FrameSection_Read BodySec bl (fr2, f2)"
    using Body_Read_drains_header[of f fr1 bl] assms(1,3)
    by (simp add: f_def fr1_def fr2_def f2_def)
  have qb: "quiet BodySec f2" by (simp add: quiet_def f2_def)
  have rb: "ReadAll (FrameSection_Read BodySec) bl (fr2, f2) = Some ((B, None), (fr3, f3))"
    unfolding ReadAll_def
    using ReadAll_quiet[OF qb _ assms(5), of "[]" fr2] assms(3)
    by (simp add: f_def fr1_def fr2_def f2_def fr3_def f3_def after_drain_def)
  have "ReadAll (FrameSection_Read BodySec) bl (fr1, f) = ReadAll (FrameSection_Read BodySec) bl (fr2, f2)"
    unfolding ReadAll_def
    by (subst ReadAll_loop.simps, subst (2) ReadAll_loop.simps) (simp add: first)
  with rb have rb1: "ReadAll (FrameSection_Read BodySec) bl (fr1, f) = Some ((B, None), (fr3, f3))"
    by simp
  have "pending (reader (fst (fr3, f3))) = rest" by (simp add: fr3_def)
  with w ri rb1 show ?thesis by blast
qed

text \<open>The same frame followed by one more byte, reading the body only.\<close>

theorem Read_body_skips_header_witness:
  "\<exists>fw f fr1 w2.
     WriteFrame [1, 2, 3] [4, 5] (NewFramed \<lparr>pending = [], at_end = EOF, short = 0, eager = False\<rparr> \<lparr>sent = [], room = None\<rparr>)
       = (None, fw)
     \<and> ReadInitial (NewFramed \<lparr>pending = sent (writer fw) @ [9], at_end = EOF, short = 0, eager = False\<rparr>
                      \<lparr>sent = [], room = None\<rparr>)
         = ((Some f, None), fr1)
     \<and> ReadAll (FrameSection_Read BodySec) 512 (fr1, f) = Some (([4, 5], None), w2)
     \<and> pending (reader (fst w2)) = [9]"
  using Read_body_skips_header [of "[1, 2, 3]" "[4, 5]" 512
      "\<lparr>pending = [], at_end = EOF, short = 0, eager = False\<rparr>" "[9]" EOF 0 False "\<lparr>sent = [], room = None\<rparr>"]
  by simp

text \<open>
  \<^verbatim>\<open>CopyTo\<close> on an untouched frame whose two lengths are not negative and add up to at
  most 32767 writes the two prefixes and then exactly that many bytes of the stream,
  provided the stream holds them and the destination accepts them.
\<close>

theorem CopyTo_untouched_no_overflow:
  assumes "\<not> startedReading (Header f)" "\<not> startedReading (Body f)"
    and "0 \<le> sint (headerLength f)" "0 \<le> sint (bodyLength f)"
    and "sint (headerLength f) + sint (bodyLength f) \<le> 32767"
    and "nat (sint (headerLength f) + sint (bodyLength f)) \<le> length (pending (reader fr))"
  shows "CopyTo \<lparr>sent = s, room = None\<rparr> (fr, f) =
     (None,
      \<lparr>sent = s @ PutUint16 (headerLength f) @ PutUint16 (bodyLength f)
               @ take (nat (sint (headerLength f) + sint (bodyLength f))) (pending (reader fr)),
        room = None\<rparr>,
      (fr\<lparr>reader := (reader fr)\<lparr>pending :=
           drop (nat (sint (headerLength f) + sint (bodyLength f))) (pending (reader fr))\<rparr>\<rparr>, f))"
proof -
  have sum: "sint (headerLength f + bodyLength f) = sint (headerLength f) + sint (bodyLength f)"
    using assms(3,4,5) by (rule sint_add16)
  show ?thesis
    using assms
    by (simp add: CopyTo_def writeHeaderTo_unlimited sum io_CopyN_enough)
qed

text \<open>A frame of 3 and 2 bytes copied from a stream that holds six bytes.\<close>

theorem CopyTo_untouched_no_overflow_witness:
  "CopyTo \<lparr>sent = [], room = None\<rparr>
     (\<lparr>reader = \<lparr>pending = [7, 8, 9, 10, 11, 12], at_end = EOF, short = 0, eager = False\<rparr>,
       writer = \<lparr>sent = [], room = None\<rparr>, hasReadInitial = True\<rparr>,
      \<lparr>Header = \<lparr>init = None, bytesRemaining = 3, startedReading = False\<rparr>,
       Body = \<lparr>init = Some Header_drain, bytesRemaining = 2, startedReading = False\<rparr>,
       headerLength = 3, bodyLength = 2\<rparr>)
   = (None, \<lparr>sent = [3, 0, 2, 0, 7, 8, 9, 10, 11], room = None\<rparr>,
      (\<lparr>reader = \<lparr>pending = [12], at_end = EOF, short = 0, eager = False\<rparr>,
        writer = \<lparr>sent = [], room = None\<rparr>, hasReadInitial = True\<rparr>,
       \<lparr>Header = \<lparr>init = None, bytesRemaining = 3, startedReading = False\<rparr>,
        Body = \<lparr>init = Some Header_drain, bytesRemaining = 2, startedReading = False\<rparr>,
        headerLength = 3, bodyLength = 2\<rparr>))"
  using CopyTo_untouched_no_overflow
    [of "\<lparr>Header = \<lparr>init = None, bytesRemaining = 3, startedReading = False\<rparr>,
       Body = \<lparr>init = Some Header_drain, bytesRemaining = 2, startedReading = False\<rparr>,
       headerLength = 3, bodyLength = 2\<rparr>"
      "\<lparr>reader = \<lparr>pending = [7, 8, 9, 10, 11, 12], at_end = EOF, short = 0, eager = False\<rparr>,
       writer = \<lparr>sent = [], room = None\<rparr>, hasReadInitial = True\<rparr>" "[]"]
  by (simp add: PutUint16_def)

text \<open>
  What \<^verbatim>\<open>ReadInitial\<close> makes of the two prefixes: the counters of the sections are the
  declared lengths read as signed 16-bit numbers, so a declared length of 32768 or more
  gives a negative counter.
\<close>

lemma declared_lengths_read_signed:
  assumes "pending (reader fr) = PutUint16 hl @ PutUint16 bl @ rest" and "\<not> hasReadInitial fr"
  shows "\<exists>f fr1. ReadInitial fr = ((Some f, None), fr1)
     \<and> bytesRemaining (Header f) = (if unat hl < 32768 then int (unat hl) else int (unat hl) - 65536)
     \<and> bytesRemaining (Body f) = (if unat bl < 32768 then int (unat bl) else int (unat bl) - 65536)
     \<and> pending (reader fr1) = rest"
  using assms
  by (simp add: ReadInitial_def nextFrame_PutUint16 sint_16_cases)

text \<open>
  On a frame as \<^verbatim>\<open>nextFrame\<close> builds it, \<^verbatim>\<open>NextFrame\<close> always returns, whatever the
  counters and the stream are: its two drains end.
\<close>

lemma NextFrame_returns:
  assumes "init (Header f) = None" "init (Body f) = Some Header_drain"
  shows "\<exists>r. NextFrame (fr, f) = Some r"
proof -
  have qh: "quiet HeaderSec f" using assms by (simp add: quiet_def)
  obtain e1 fr1 f1 where d1: "drain HeaderSec (fr, f) = Some (e1, (fr1, f1))"
    and i1: "init (Header f1) = None" "init (Body f1) = Some Header_drain"
    and c1: "bytesRemaining (Header f1) \<le> 0 \<or> e1 \<noteq> None
             \<or> (pending (reader fr1) = [] \<and> at_end (reader fr1) = EOF)"
  proof (cases "0 < bytesRemaining (Header f)")
    case False
    then show ?thesis using that[of None fr f] assms by (simp add: drain_idle)
  next
    case True
    define e1 where "e1 = fst (after_drain HeaderSec (fr, f))"
    define fr1 where "fr1 = fst (snd (after_drain HeaderSec (fr, f)))"
    define f1 where "f1 = snd (snd (after_drain HeaderSec (fr, f)))"
    have d: "drain HeaderSec (fr, f) = Some (e1, (fr1, f1))"
      using True drain_quiet[OF qh, of fr] by (simp add: e1_def fr1_def f1_def)
    have i: "init (Header f1) = None" "init (Body f1) = Some Header_drain"
      using assms by (simp_all add: f1_def after_drain_def Let_def)
    have c: "bytesRemaining (Header f1) \<le> 0 \<or> e1 \<noteq> None
             \<or> (pending (reader fr1) = [] \<and> at_end (reader fr1) = EOF)"
      using True by (auto simp: e1_def fr1_def f1_def after_drain_def Let_def split: if_splits)
    show ?thesis by (rule that[OF d i c])
  qed
  show ?thesis
  proof (cases e1)
    case (Some e)
    then show ?thesis using d1 by (simp add: NextFrame_def)
  next
    case None
    have "\<exists>e2 w2. drain BodySec (fr1, f1) = Some (e2, w2)"
    proof (cases "0 < bytesRemaining (Body f1)")
      case False
      then show ?thesis by (simp add: drain_idle)
    next
      case pos: True
      show ?thesis
      proof (cases "bytesRemaining (Header f1) \<le> 0")
        case True
        then have "quiet BodySec f1" by (simp add: quiet_def)
        then show ?thesis
          using pos drain_quiet[of BodySec f1 fr1]
          by (cases "after_drain BodySec (fr1, f1)") auto
      next
        case False
        then show ?thesis
          using c1 None i1 pos Body_drain_at_eof[of f1 fr1] by auto
      qed
    qed
    then obtain e2 w2 where d2: "drain BodySec (fr1, f1) = Some (e2, w2)" by blast
    show ?thesis
      using d1 d2 None by (cases e2) (auto simp: NextFrame_def split: prod.splits)
  qed
qed

text \<open>
  The scenario of the specification. One session writes the frame with header
  \<^verbatim>\<open>GET\<close> and body \<^verbatim>\<open>/index.html\<close>, then the frame with an empty header and
  body \<^verbatim>\<open>pong\<close>. The peer obtains a first frame with lengths 3 and 11 and reads
  both sections; \<^verbatim>\<open>NextFrame\<close> gives a frame with lengths 0 and 4, whose header
  returns no bytes (and no error) and whose body reads \<^verbatim>\<open>pong\<close>; one more
  \<^verbatim>\<open>NextFrame\<close> returns \<open>EOF\<close>.
\<close>

theorem two_frames_scenario:
  "\<exists>fw1 fw2 f1 p1 w2 w3 f2 p4 f3 w5 w6 f4.
     WriteFrame [0x47, 0x45, 0x54] [0x2F, 0x69, 0x6E, 0x64, 0x65, 0x78, 0x2E, 0x68, 0x74, 0x6D, 0x6C]
         (NewFramed r \<lparr>sent = [], room = None\<rparr>) = (None, fw1)
     \<and> WriteFrame [] [0x70, 0x6F, 0x6E, 0x67] fw1 = (None, fw2)
     \<and> ReadInitial (NewFramed \<lparr>pending = sent (writer fw2), at_end = EOF, short = sh, eager = eg\<rparr> k)
         = ((Some f1, None), p1)
     \<and> bytesRemaining (Header f1) = 3 \<and> bytesRemaining (Body f1) = 11
     \<and> ReadAll (FrameSection_Read HeaderSec) 512 (p1, f1) = Some (([0x47, 0x45, 0x54], None), w2)
     \<and> ReadAll (FrameSection_Read BodySec) 512 w2
         = Some (([0x2F, 0x69, 0x6E, 0x64, 0x65, 0x78, 0x2E, 0x68, 0x74, 0x6D, 0x6C], None), w3)
     \<and> NextFrame w3 = Some ((Some f2, None), (p4, f3))
     \<and> bytesRemaining (Header f2) = 0 \<and> bytesRemaining (Body f2) = 4
     \<and> FrameSection_Read HeaderSec 512 (p4, f2) = Some (([], None), (p4, f2))
     \<and> ReadAll (FrameSection_Read BodySec) 512 (p4, f2) = Some (([0x70, 0x6F, 0x6E, 0x67], None), w5)
     \<and> NextFrame w5 = Some ((Some f4, Some EOF), w6)"
proof -
  let ?GET = "[0x47, 0x45, 0x54] :: byte list"
  let ?idx = "[0x2F, 0x69, 0x6E, 0x64, 0x65, 0x78, 0x2E, 0x68, 0x74, 0x6D, 0x6C] :: byte list"
  let ?pong = "[0x70, 0x6F, 0x6E, 0x67] :: byte list"
  define fw1 where "fw1 = \<lparr>reader = r, writer = \<lparr>sent = [3, 0, 11, 0] @ ?GET @ ?idx, room = None\<rparr>,
      hasReadInitial = False\<rparr>"
  define fw2 where "fw2 = \<lparr>reader = r,
      writer = \<lparr>sent = [3, 0, 11, 0] @ ?GET @ ?idx @ [0, 0, 4, 0] @ ?pong, room = None\<rparr>,
      hasReadInitial = False\<rparr>"
  define src where "src = (\<lambda>bs. \<lparr>pending = bs, at_end = EOF, short = sh, eager = eg\<rparr>)"
  define ses where "ses = (\<lambda>bs. \<lparr>reader = src bs, writer = k, hasReadInitial = True\<rparr>)"
  define f1 where "f1 = \<lparr>Header = \<lparr>init = None, bytesRemaining = 3, startedReading = False\<rparr>,
      Body = \<lparr>init = Some Header_drain, bytesRemaining = 11, startedReading = False\<rparr>,
      headerLength = 3, bodyLength = 11\<rparr>"
  define f1h where "f1h = f1\<lparr>Header := \<lparr>init = None, bytesRemaining = 0, startedReading = True\<rparr>\<rparr>"
  define f1b where "f1b = f1h\<lparr>Body := \<lparr>init = Some Header_drain, bytesRemaining = 0, startedReading = True\<rparr>\<rparr>"
  define f2 where "f2 = \<lparr>Header = \<lparr>init = None, bytesRemaining = 0, startedReading = False\<rparr>,
      Body = \<lparr>init = Some Header_drain, bytesRemaining = 4, startedReading = False\<rparr>,
      headerLength = 0, bodyLength = 4\<rparr>"
  define f2b where "f2b = f2\<lparr>Body := \<lparr>init = Some Header_drain, bytesRemaining = 0, startedReading = True\<rparr>\<rparr>"
  have w1: "WriteFrame ?GET ?idx (NewFramed r \<lparr>sent = [], room = None\<rparr>) = (None, fw1)"
    by (simp add: NewFramed_def WriteFrame_unlimited PutUint16_def fw1_def)
  have w2: "WriteFrame [] ?pong fw1 = (None, fw2)"
    by (simp add: WriteFrame_unlimited PutUint16_def fw1_def fw2_def)
  have ri: "ReadInitial (NewFramed \<lparr>pending = sent (writer fw2), at_end = EOF, short = sh, eager = eg\<rparr> k)
         = ((Some f1, None), ses (?GET @ ?idx @ [0, 0, 4, 0] @ ?pong))"
    by (simp add: NewFramed_def ReadInitial_def nextFrame_enough fw2_def f1_def ses_def src_def)
  have rh: "ReadAll (FrameSection_Read HeaderSec) 512 (ses (?GET @ ?idx @ [0, 0, 4, 0] @ ?pong), f1)
         = Some ((?GET, None), (ses (?idx @ [0, 0, 4, 0] @ ?pong), f1h))"
    unfolding ReadAll_def
    by (subst ReadAll_quiet) (simp_all add: quiet_def f1_def f1h_def ses_def src_def after_drain_def)
  have rb: "ReadAll (FrameSection_Read BodySec) 512 (ses (?idx @ [0, 0, 4, 0] @ ?pong), f1h)
         = Some ((?idx, None), (ses ([0, 0, 4, 0] @ ?pong), f1b))"
    unfolding ReadAll_def
    by (subst ReadAll_quiet)
      (simp_all add: quiet_def f1_def f1h_def f1b_def ses_def src_def after_drain_def)
  have n1: "NextFrame (ses ([0, 0, 4, 0] @ ?pong), f1b) = Some ((Some f2, None), (ses ?pong, f1b))"
    by (simp add: NextFrame_def drain_idle f1b_def f1h_def f1_def nextFrame_enough ses_def src_def
        f2_def)
  have r0: "FrameSection_Read HeaderSec 512 (ses ?pong, f2) = Some (([], None), (ses ?pong, f2))"
    by (simp add: FrameSection_Read_def Read_with_def f2_def)
  have rp: "ReadAll (FrameSection_Read BodySec) 512 (ses ?pong, f2)
         = Some ((?pong, None), (ses [], f2b))"
    unfolding ReadAll_def
    by (subst ReadAll_quiet) (simp_all add: quiet_def f2_def f2b_def ses_def src_def after_drain_def)
  have n2: "NextFrame (ses [], f2b) = Some ((Some new_Frame, Some EOF), (ses [], f2b))"
    by (simp add: NextFrame_def drain_idle f2b_def f2_def nextFrame_at_end ses_def src_def)
  have c1: "bytesRemaining (Header f1) = 3 \<and> bytesRemaining (Body f1) = 11"
    by (simp add: f1_def)
  have c2: "bytesRemaining (Header f2) = 0 \<and> bytesRemaining (Body f2) = 4"
    by (simp add: f2_def)
  show ?thesis
    using w1 w2 ri c1 rh rb n1 c2 r0 rp n2 by blast
qed

section \<open>The claims\<close>

subsection \<open>C1: round trip of a frame\<close>

text \<open>
  C1 says that for every header \<open>H\<close> and body \<open>B\<close> of at most 65535 bytes each, a frame
  written by \<^verbatim>\<open>WriteFrame(H, B)\<close> and read back on the peer (\<^verbatim>\<open>ReadInitial\<close>, then
  the header section, then the body section) yields \<open>H\<close> and \<open>B\<close>.

  The code keeps the lengths in \<^verbatim>\<open>int16\<close> fields, although the package comment
  speaks of unsigned 16-bit lengths of up to 65535. For a header of 32768 bytes the
  writer sends the prefix \<open>00 80\<close>, the reader decodes it as \<open>-32768\<close>, stores that in
  \<^verbatim>\<open>bytesRemaining\<close>, and every \<^verbatim>\<open>Read\<close> of the header section, whatever the
  buffer, panics at \<^verbatim>\<open>p[0:section.bytesRemaining]\<close>: no byte of \<open>H\<close> comes back.
  (For headers and bodies of 1 to 32767 bytes the round trip does hold: this is
  \<open>WriteFrame_Read_roundtrip\<close> above.)
\<close>

theorem WriteFrame_32768_header_read_panics:
  "\<exists>fw f fr1.
     WriteFrame (replicate 32768 0) [] (NewFramed r \<lparr>sent = [], room = None\<rparr>) = (None, fw)
     \<and> sent (writer fw) = [0, 0x80, 0, 0] @ replicate 32768 0
     \<and> ReadInitial (NewFramed \<lparr>pending = sent (writer fw), at_end = EOF, short = sh, eager = eg\<rparr> k)
         = ((Some f, None), fr1)
     \<and> bytesRemaining (Header f) = - 32768
     \<and> FrameSection_Read HeaderSec lp (fr1, f)
         = Some (([], Some PanicSliceBounds),
                 (fr1, f\<lparr>Header := (Header f)\<lparr>startedReading := True\<rparr>\<rparr>))"
  by (simp add: NewFramed_def WriteFrame_unlimited PutUint16_def ReadInitial_def nextFrame_enough
      Read_negative quiet_def)

subsection \<open>C2: frames that are too long\<close>

text \<open>
  C2 says that \<^verbatim>\<open>WriteFrame\<close> returns an error and writes nothing when the header or
  the body is longer than 65535 bytes.

  \<^verbatim>\<open>WriteFrame\<close> has no such check: it converts the lengths with \<^verbatim>\<open>int16(len(...))\<close>,
  which keeps their low 16 bits. With a header of 65536 bytes, an empty body and a stream
  that accepts every write, it returns nil after writing the prefixes \<open>00 00 00 00\<close>
  and the 65536 bytes: a stream that no reader can take apart again.
  (\<^verbatim>\<open>Writer.Write\<close> of \<^verbatim>\<open>framed.go\<close> does reject such a frame before it writes:
  \<open>Writer_Write_too_long\<close> above.)
\<close>

theorem WriteFrame_oversize_not_rejected:
  "WriteFrame (replicate 65536 0) [] (NewFramed r \<lparr>sent = [], room = None\<rparr>) =
     (None, \<lparr>reader = r, writer = \<lparr>sent = [0, 0, 0, 0] @ replicate 65536 0, room = None\<rparr>,
             hasReadInitial = False\<rparr>)"
  by (simp add: NewFramed_def WriteFrame_unlimited PutUint16_def)

subsection \<open>C3: declared lengths at read time\<close>

text \<open>
  C3 says that the reader accepts every declared length up to 65535, that the section then
  delivers that many bytes, and that \<^verbatim>\<open>bytesRemaining\<close> stays between 0 and the
  declared length.

  On the prefix bytes \<open>FF FF 40 9C\<close> (a header of 65535 and a body of 40000 bytes)
  \<^verbatim>\<open>ReadInitial\<close> succeeds and returns a frame whose header has
  \<^verbatim>\<open>bytesRemaining\<close> \<open>-1\<close> and whose body has \<open>-25536\<close>. Reading the header panics, and
  draining it does nothing, since its test is \<^verbatim>\<open>bytesRemaining > 0\<close>.
  (\<open>declared_lengths_read_signed\<close> above gives the counter for every declared length:
  it is the declared length up to 32767, and negative from 32768 on.)
\<close>

theorem declared_length_65535_remaining_negative:
  "\<exists>f fr1.
     ReadInitial (NewFramed \<lparr>pending = 0xFF # 0xFF # 0x40 # 0x9C # rest, at_end = e, short = sh, eager = eg\<rparr> k)
       = ((Some f, None), fr1)
     \<and> unat (headerLength f) = 65535 \<and> bytesRemaining (Header f) = - 1
     \<and> unat (bodyLength f) = 40000 \<and> bytesRemaining (Body f) = - 25536
     \<and> FrameSection_Read HeaderSec lp (fr1, f)
         = Some (([], Some PanicSliceBounds),
                 (fr1, f\<lparr>Header := (Header f)\<lparr>startedReading := True\<rparr>\<rparr>))
     \<and> drain HeaderSec (fr1, f) = Some (None, (fr1, f))"
  by (simp add: NewFramed_def ReadInitial_def nextFrame_enough Read_negative quiet_def drain_idle)

subsection \<open>C4: reading an exhausted section\<close>

text \<open>
  C4 says that \<^verbatim>\<open>Read\<close> on a section with \<^verbatim>\<open>bytesRemaining\<close> 0 returns 0 bytes
  together with the end-of-section signal, does no I/O, and does so again on every later
  call.

  The code returns 0 bytes and leaves the session and the frame as they are, so every
  later call does the same; but the error it returns there is nil, not \<open>EOF\<close>: the
  first statement of \<^verbatim>\<open>Read\<close> is \<^verbatim>\<open>return 0, err\<close> with \<^verbatim>\<open>err\<close> not yet
  assigned. (The last statement of the same function does set \<^verbatim>\<open>io.EOF\<close> when the
  counter reaches 0.)
\<close>

theorem Read_at_zero_returns_nil:
  "bytesRemaining (sect sid f) = 0 \<Longrightarrow>
   FrameSection_Read sid lp (fr, f) = Some (([], None), (fr, f))"
  by (simp add: FrameSection_Read_def Read_with_def)

text \<open>C4, at the header of a frame whose declared header length is 0.\<close>

theorem Read_at_zero_returns_nil_witness:
  "bytesRemaining (sect HeaderSec new_Frame) = 0 \<and>
   FrameSection_Read HeaderSec 10
     (NewFramed \<lparr>pending = [1, 2, 3], at_end = EOF, short = 0, eager = False\<rparr> \<lparr>sent = [], room = None\<rparr>,
      new_Frame)
     = Some (([], None),
             (NewFramed \<lparr>pending = [1, 2, 3], at_end = EOF, short = 0, eager = False\<rparr> \<lparr>sent = [], room = None\<rparr>,
              new_Frame))"
  using Read_at_zero_returns_nil [of HeaderSec new_Frame 10
      "NewFramed \<lparr>pending = [1, 2, 3], at_end = EOF, short = 0, eager = False\<rparr> \<lparr>sent = [], room = None\<rparr>"]
  by (simp add: new_Frame_def)

subsection \<open>C5: copying a whole frame\<close>

text \<open>
  C5 says that \<^verbatim>\<open>CopyTo\<close> on an untouched frame writes the two length prefixes and
  then exactly \<^verbatim>\<open>headerLength + bodyLength\<close> bytes of the stream, and that it fails
  with an already-read error once a section has been read.

  The number of bytes to copy is computed as an \<^verbatim>\<open>int16\<close> sum. For a frame with a
  header and a body of 20000 bytes each the sum wraps to \<open>-25536\<close>; \<^verbatim>\<open>io.CopyN\<close>
  with a negative count copies nothing and returns nil. \<^verbatim>\<open>CopyTo\<close> so writes the four
  prefix bytes \<open>20 4E 20 4E\<close> and none of the 40000 bytes that follow, and reports
  success. (When the two lengths add up to at most 32767 the copy is as C5 says,
  \<open>CopyTo_untouched_no_overflow\<close> above; and a \<^verbatim>\<open>Read\<close> that has delivered a byte
  has set \<^verbatim>\<open>startedReading\<close>, after which \<^verbatim>\<open>CopyTo\<close> fails: \<open>Read_marks_started\<close>,
  \<open>CopyTo_after_read\<close>.)
\<close>

theorem CopyTo_sum_overflow_copies_nothing:
  "\<exists>f fr1.
     ReadInitial (NewFramed \<lparr>pending = [0x20, 0x4E, 0x20, 0x4E] @ replicate 40000 0,
                             at_end = EOF, short = sh, eager = eg\<rparr> k)
       = ((Some f, None), fr1)
     \<and> sint (headerLength f) = 20000 \<and> sint (bodyLength f) = 20000
     \<and> \<not> startedReading (Header f) \<and> \<not> startedReading (Body f)
     \<and> pending (reader fr1) = replicate 40000 0
     \<and> CopyTo \<lparr>sent = [], room = None\<rparr> (fr1, f)
         = (None, \<lparr>sent = [0x20, 0x4E, 0x20, 0x4E], room = None\<rparr>, (fr1, f))"
  by (simp add: NewFramed_def ReadInitial_def nextFrame_enough CopyTo_def writeHeaderTo_unlimited
      PutUint16_def io_CopyN_negative)

subsection \<open>C6: advancing to the next frame\<close>




subsection \<open>C7: \<^verbatim>\<open>ReadInitial\<close> succeeds at most once\<close>

text \<open>
  C7: the first call of \<^verbatim>\<open>ReadInitial\<close> on a session reads the first pair of lengths
  and returns the first frame; every later call fails with the already-read error and
  leaves the session, and so the stream, as it was. (A frame obtained earlier is not
  among the things \<^verbatim>\<open>ReadInitial\<close> can reach when it fails: it returns before it
  touches anything.) Whatever the first call did, \<open>fr1\<close> is the session it leaves
  behind, and \<open>fr2\<close> is that session after any further calls.
\<close>

theorem ReadInitial_at_most_once:
  assumes first: "ReadInitial fr = (res, fr1)"
  shows "(\<not> hasReadInitial fr \<longrightarrow>
            res = (Some (fst (fst (nextFrame fr))), snd (fst (nextFrame fr)))
            \<and> reader fr1 = reader (snd (nextFrame fr)))
       \<and> (\<forall>hl bl rest. \<not> hasReadInitial fr \<and> pending (reader fr) = PutUint16 hl @ PutUint16 bl @ rest \<longrightarrow>
            (\<exists>f. res = (Some f, None)
                  \<and> headerLength f = hl \<and> bodyLength f = bl
                  \<and> pending (reader fr1) = rest))
       \<and> (\<forall>f fr2 f2. later (fr1, f) (fr2, f2) \<longrightarrow>
            ReadInitial fr2 = ((None, Some (AlreadyReadError ''Initial Frame already read'')), fr2))"
proof -
  have h: "hasReadInitial fr1"
    using ReadInitial_sets[of fr] first by simp
  have three: "\<forall>f fr2 f2. later (fr1, f) (fr2, f2) \<longrightarrow>
            ReadInitial fr2 = ((None, Some (AlreadyReadError ''Initial Frame already read'')), fr2)"
    using h later_flag ReadInitial_already by fastforce
  have one: "\<not> hasReadInitial fr \<longrightarrow>
            res = (Some (fst (fst (nextFrame fr))), snd (fst (nextFrame fr)))
            \<and> reader fr1 = reader (snd (nextFrame fr))"
    using first by (auto simp: ReadInitial_def split: prod.splits)
  have two: "\<forall>hl bl rest. \<not> hasReadInitial fr \<and> pending (reader fr) = PutUint16 hl @ PutUint16 bl @ rest \<longrightarrow>
            (\<exists>f. res = (Some f, None)
                  \<and> headerLength f = hl \<and> bodyLength f = bl
                  \<and> pending (reader fr1) = rest)"
    using first by (auto simp: ReadInitial_def nextFrame_PutUint16)
  show ?thesis using one two three by blast
qed

text \<open>C7 on a new session whose stream holds the prefixes of a frame and one byte:
  the first call returns the frame, and after the header has been drained a second
  call fails and changes nothing.\<close>

theorem ReadInitial_at_most_once_witness:
  "ReadInitial (NewFramed \<lparr>pending = [3, 0, 2, 0, 7], at_end = EOF, short = 0, eager = False\<rparr> \<lparr>sent = [], room = None\<rparr>)
     = ((Some \<lparr>Header = \<lparr>init = None, bytesRemaining = 3, startedReading = False\<rparr>,
               Body = \<lparr>init = Some Header_drain, bytesRemaining = 2, startedReading = False\<rparr>,
               headerLength = 3, bodyLength = 2\<rparr>, None),
        \<lparr>reader = \<lparr>pending = [7], at_end = EOF, short = 0, eager = False\<rparr>,
         writer = \<lparr>sent = [], room = None\<rparr>, hasReadInitial = True\<rparr>)
   \<and> \<not> hasReadInitial (NewFramed \<lparr>pending = [3, 0, 2, 0, 7], at_end = EOF, short = 0, eager = False\<rparr> \<lparr>sent = [], room = None\<rparr>)
   \<and> pending (reader (NewFramed \<lparr>pending = [3, 0, 2, 0, 7], at_end = EOF, short = 0, eager = False\<rparr> \<lparr>sent = [], room = None\<rparr>))
       = PutUint16 3 @ PutUint16 2 @ [7]
   \<and> later
        (\<lparr>reader = \<lparr>pending = [7], at_end = EOF, short = 0, eager = False\<rparr>,
          writer = \<lparr>sent = [], room = None\<rparr>, hasReadInitial = True\<rparr>,
         \<lparr>Header = \<lparr>init = None, bytesRemaining = 3, startedReading = False\<rparr>,
          Body = \<lparr>init = Some Header_drain, bytesRemaining = 2, startedReading = False\<rparr>,
          headerLength = 3, bodyLength = 2\<rparr>)
        (\<lparr>reader = \<lparr>pending = [], at_end = EOF, short = 0, eager = False\<rparr>,
          writer = \<lparr>sent = [], room = None\<rparr>, hasReadInitial = True\<rparr>,
         \<lparr>Header = \<lparr>init = None, bytesRemaining = 2, startedReading = True\<rparr>,
          Body = \<lparr>init = Some Header_drain, bytesRemaining = 2, startedReading = False\<rparr>,
          headerLength = 3, bodyLength = 2\<rparr>)
   \<and> ReadInitial
        \<lparr>reader = \<lparr>pending = [], at_end = EOF, short = 0, eager = False\<rparr>,
         writer = \<lparr>sent = [], room = None\<rparr>, hasReadInitial = True\<rparr>
       = ((None, Some (AlreadyReadError ''Initial Frame already read'')),
          \<lparr>reader = \<lparr>pending = [], at_end = EOF, short = 0, eager = False\<rparr>,
           writer = \<lparr>sent = [], room = None\<rparr>, hasReadInitial = True\<rparr>)"
proof -
  let ?S0 = "NewFramed \<lparr>pending = [3, 0, 2, 0, 7], at_end = EOF, short = 0, eager = False\<rparr> \<lparr>sent = [], room = None\<rparr>"
  let ?S1 = "\<lparr>reader = \<lparr>pending = [7], at_end = EOF, short = 0, eager = False\<rparr>,
         writer = \<lparr>sent = [], room = None\<rparr>, hasReadInitial = True\<rparr>"
  let ?S2 = "\<lparr>reader = \<lparr>pending = [], at_end = EOF, short = 0, eager = False\<rparr>,
         writer = \<lparr>sent = [], room = None\<rparr>, hasReadInitial = True\<rparr>"
  let ?F0 = "\<lparr>Header = \<lparr>init = None, bytesRemaining = 3, startedReading = False\<rparr>,
          Body = \<lparr>init = Some Header_drain, bytesRemaining = 2, startedReading = False\<rparr>,
          headerLength = 3, bodyLength = 2\<rparr>"
  let ?F1 = "\<lparr>Header = \<lparr>init = None, bytesRemaining = 2, startedReading = True\<rparr>,
          Body = \<lparr>init = Some Header_drain, bytesRemaining = 2, startedReading = False\<rparr>,
          headerLength = 3, bodyLength = 2\<rparr>"
  have first: "ReadInitial ?S0 = ((Some ?F0, None), ?S1)"
    by (simp add: NewFramed_def ReadInitial_def nextFrame_enough)
  have fresh: "\<not> hasReadInitial ?S0"
    by (simp add: NewFramed_def)
  have bytes: "pending (reader ?S0) = PutUint16 3 @ PutUint16 2 @ [7]"
    by (simp add: NewFramed_def PutUint16_def)
  have "drain HeaderSec (?S1, ?F0) = Some (None, (?S2, ?F1))"
    by (simp add: drain_quiet quiet_def after_drain_def)
  then have reach: "later (?S1, ?F0) (?S2, ?F1)"
    using later_drain[OF later_same] by blast
  have again: "ReadInitial ?S2 = ((None, Some (AlreadyReadError ''Initial Frame already read'')), ?S2)"
    using ReadInitial_at_most_once [OF first] reach by blast
  show ?thesis
    by (intro conjI first fresh bytes reach again)
qed

subsection \<open>C8: \<^verbatim>\<open>WritePieces\<close>\<close>

text \<open>
  C8 says that \<^verbatim>\<open>WritePieces\<close> writes one prefix equal to the sum of the lengths of the
  pieces, then the pieces, and rejects a sum above 65535 before it writes anything.

  The method adds the lengths up in \<^verbatim>\<open>innern\<close>, but tests \<^verbatim>\<open>n > MaxFrameLength\<close> and
  writes \<^verbatim>\<open>uint16(n)\<close>, and \<^verbatim>\<open>n\<close> is never assigned. For the pieces \<open>01 02\<close> and
  \<open>03\<close> it writes the prefix \<open>00 00\<close>, not \<open>03 00\<close>, before the three bytes, and
  returns \<open>(0, nil)\<close>. A single piece of 65536 bytes is not rejected: the prefix
  \<open>00 00\<close> and all its bytes are written, and the result is \<open>(0, nil)\<close> again.
  (\<^verbatim>\<open>Writer.Write\<close>, next to it, uses \<^verbatim>\<open>innern\<close> for the check and for the prefix.)
\<close>

theorem WritePieces_prefix_is_zero:
  "WritePieces [[1, 2], [3]] (\<lparr>sent = [], room = None\<rparr>, v) =
     ((0, None),
      (\<lparr>sent = [0, 0, 1, 2, 3], room = None\<rparr>,
       v\<lparr>innern := innern v + 3, innererr := Some (WrittenMismatch 3 0)\<rparr>))
   \<and> fst (WritePieces [replicate 65536 0] (\<lparr>sent = [], room = None\<rparr>, v)) = (0, None)
   \<and> sent (fst (snd (WritePieces [replicate 65536 0] (\<lparr>sent = [], room = None\<rparr>, v))))
       = [0, 0] @ replicate 65536 0"
  by (simp add: WritePieces_unlimited)

subsection \<open>C9: a first \<^verbatim>\<open>ReadInitial\<close> that fails\<close>

text \<open>
  C9: when the first call of \<^verbatim>\<open>ReadInitial\<close> fails because the stream gives out before
  the four prefix bytes are read, the call still sets \<^verbatim>\<open>hasReadInitial\<close>: it returns
  the error of the stream (or \<^verbatim>\<open>io.ErrUnexpectedEOF\<close>, which \<^verbatim>\<open>io.ReadFull\<close> makes of an
  \<open>EOF\<close> in the middle of a prefix), and after it every call of \<^verbatim>\<open>ReadInitial\<close>,
  whatever was called in between, returns the already-read error.
\<close>

theorem ReadInitial_failed_first_call_marks_read:
  assumes "\<not> hasReadInitial fr" and "length (pending (reader fr)) < 4"
  shows "\<exists>f e fr1. ReadInitial fr = ((Some f, Some e), fr1)
           \<and> (e = at_end (reader fr) \<or> e = ErrUnexpectedEOF)
           \<and> hasReadInitial fr1
           \<and> (\<forall>f1 fr2 f2. later (fr1, f1) (fr2, f2) \<longrightarrow>
                 ReadInitial fr2
                   = ((None, Some (AlreadyReadError ''Initial Frame already read'')), fr2))"
proof -
  obtain f where nf: "nextFrame fr =
     ((f, Some (if length (pending (reader fr)) \<in> {1, 3} \<and> at_end (reader fr) = EOF
                then ErrUnexpectedEOF else at_end (reader fr))),
      fr\<lparr>reader := (reader fr)\<lparr>pending := []\<rparr>\<rparr>)"
    using nextFrame_short[OF assms(2)] by blast
  define fr1 where "fr1 = fr\<lparr>reader := (reader fr)\<lparr>pending := []\<rparr>, hasReadInitial := True\<rparr>"
  have h: "hasReadInitial fr1" by (simp add: fr1_def)
  have later: "\<forall>f1 fr2 f2. later (fr1, f1) (fr2, f2) \<longrightarrow>
                 ReadInitial fr2
                   = ((None, Some (AlreadyReadError ''Initial Frame already read'')), fr2)"
    using h later_flag ReadInitial_already by fastforce
  define e where "e = (if length (pending (reader fr)) \<in> {1, 3} \<and> at_end (reader fr) = EOF
                then ErrUnexpectedEOF else at_end (reader fr))"
  have r: "ReadInitial fr = ((Some f, Some e), fr1)"
    using assms(1) nf by (simp add: ReadInitial_def fr1_def e_def)
  have d: "e = at_end (reader fr) \<or> e = ErrUnexpectedEOF"
    by (simp add: e_def)
  show ?thesis
    using r d h later by blast
qed

text \<open>C9 on a new session whose stream ends after three bytes: the first call fails
  with \<^verbatim>\<open>io.ErrUnexpectedEOF\<close>, and a second call fails with the already-read error.\<close>

theorem ReadInitial_failed_first_call_marks_read_witness:
  "\<not> hasReadInitial (NewFramed \<lparr>pending = [3, 0, 2], at_end = EOF, short = 0, eager = False\<rparr> \<lparr>sent = [], room = None\<rparr>)
   \<and> length (pending (reader (NewFramed \<lparr>pending = [3, 0, 2], at_end = EOF, short = 0, eager = False\<rparr> \<lparr>sent = [], room = None\<rparr>))) < 4
   \<and> (\<exists>f e fr1.
         ReadInitial (NewFramed \<lparr>pending = [3, 0, 2], at_end = EOF, short = 0, eager = False\<rparr> \<lparr>sent = [], room = None\<rparr>)
           = ((Some f, Some e), fr1)
         \<and> (e = EOF \<or> e = ErrUnexpectedEOF)
         \<and> hasReadInitial fr1
         \<and> ReadInitial fr1
              = ((None, Some (AlreadyReadError ''Initial Frame already read'')), fr1))"
proof -
  let ?S0 = "NewFramed \<lparr>pending = [3, 0, 2], at_end = EOF, short = 0, eager = False\<rparr> \<lparr>sent = [], room = None\<rparr>"
  have fresh: "\<not> hasReadInitial ?S0" and few: "length (pending (reader ?S0)) < 4"
    by (simp_all add: NewFramed_def)
  obtain f e fr1 where r: "ReadInitial ?S0 = ((Some f, Some e), fr1)"
    and e: "e = at_end (reader ?S0) \<or> e = ErrUnexpectedEOF"
    and h: "hasReadInitial fr1"
    and l: "\<forall>f1 fr2 f2. later (fr1, f1) (fr2, f2) \<longrightarrow>
                 ReadInitial fr2
                   = ((None, Some (AlreadyReadError ''Initial Frame already read'')), fr2)"
    using ReadInitial_failed_first_call_marks_read [OF fresh few] by blast
  have "later (fr1, f) (fr1, f)" by (rule later_same)
  then have a: "ReadInitial fr1 = ((None, Some (AlreadyReadError ''Initial Frame already read'')), fr1)"
    using l by blast
  have e': "e = EOF \<or> e = ErrUnexpectedEOF"
    using e by (simp add: NewFramed_def)
  show ?thesis
    using fresh few r e' h a by blast
qed

subsection \<open>C10: \<^verbatim>\<open>Reader.Read\<close> into a buffer that is too small\<close>

text \<open>
  C10: when the stream delivers a length prefix \<open>nb\<close> that is larger than the buffer
  given to \<^verbatim>\<open>Reader.Read\<close>, the call returns 0 and an error and stores nothing in the
  buffer; the two prefix bytes are consumed and the stream stands at the first byte of
  the payload, \<open>rest\<close>, which is not the start of a frame.
\<close>

theorem Reader_Read_small_buffer_consumes_prefix:
  assumes "pending stream = PutUint16 nb @ rest" and "bufferSize < unat nb"
  shows "Reader_Read bufferSize (stream, v) =
     (((0, Some (BufferTooSmallFor (int bufferSize) 0)), []),
      (stream\<lparr>pending := rest\<rparr>, v\<lparr>innern := uint nb, innererr := None\<rparr>))"
proof -
  have "int bufferSize < uint nb"
    using assms(2) by (simp only: uint_nat of_nat_less_iff)
  then show ?thesis
    by (simp add: Reader_Read_def Let_def binary_Read_PutUint16[OF assms(1)])
qed

text \<open>C10 on a frame of 5 bytes and a buffer of 3.\<close>

theorem Reader_Read_small_buffer_consumes_prefix_witness:
  "pending \<lparr>pending = [5, 0, 1, 2, 3, 4, 5], at_end = EOF, short = 0, eager = False\<rparr> = PutUint16 5 @ [1, 2, 3, 4, 5]
   \<and> 3 < unat (5 :: 16 word)
   \<and> Reader_Read 3 (\<lparr>pending = [5, 0, 1, 2, 3, 4, 5], at_end = EOF, short = 0, eager = False\<rparr>,
                     \<lparr>innern = 0, innererr = None\<rparr>)
       = (((0, Some (BufferTooSmallFor 3 0)), []),
          (\<lparr>pending = [1, 2, 3, 4, 5], at_end = EOF, short = 0, eager = False\<rparr>,
           \<lparr>innern = 5, innererr = None\<rparr>))"
  using Reader_Read_small_buffer_consumes_prefix
    [of "\<lparr>pending = [5, 0, 1, 2, 3, 4, 5], at_end = EOF, short = 0, eager = False\<rparr>" 5 "[1, 2, 3, 4, 5]" 3
        "\<lparr>innern = 0, innererr = None\<rparr>"]
  by (simp add: PutUint16_def)

end
